theory Spec2Isabelle
  imports Main "HOL-Library.Word" "HOL-Library.Sublist"
begin

section \<open>ttyconv: a shallow embedding of the terminal transcoder\<close>

text \<open>
  The definitions below follow \<^verbatim>\<open>src/libttyconv/ttyconv.py\<close> (class \<^verbatim>\<open>TTYConv\<close>) and
  \<^verbatim>\<open>src/ttyconv2.py\<close> (class \<^verbatim>\<open>TTYConv2\<close>). Both are read as Python 3, the interpreter
  \<^verbatim>\<open>ttyconv2.py\<close> asks for: \<^verbatim>\<open>str\<close> is text and what \<^verbatim>\<open>os.read\<close> and the encoders return is
  \<^verbatim>\<open>bytes\<close>, a \<^verbatim>\<open>bytes\<close> object is never equal to a \<^verbatim>\<open>str\<close>, and an exception object cannot
  be subscripted (\<^verbatim>\<open>e[0]\<close> raises \<^verbatim>\<open>TypeError\<close>).

  Python exceptions are values of the type \<open>exc\<close>; a function that can raise returns
  \<open>exc + 'a\<close>, with \<open>Inl\<close> for the exception. \<open>OSError\<close> carries the errno (\<^verbatim>\<open>select.error\<close>
  is the same class), \<open>UnicodeError\<close> the attributes \<^verbatim>\<open>start\<close> and \<^verbatim>\<open>end\<close>.
\<close>

subsection \<open>Exceptions\<close>

datatype exc =
    SystemExit int string
  | ExceptionPexpect string
  | OSError nat
  | TypeError
  | ValueError
  | LookupError
  | UnicodeError nat nat
  | UnicodeEncodeError

text \<open>
  \<^verbatim>\<open>fail(message)\<close> writes the diagnostic to standard error and calls \<^verbatim>\<open>sys.exit(1)\<close>.
  The exit status and the message handed to \<^verbatim>\<open>fail\<close> are kept; the line wrapping done by
  \<^verbatim>\<open>textwrap\<close> is not modelled.
\<close>

definition fail :: "string \<Rightarrow> exc + 'a" where
  "fail message = Inl (SystemExit 1 message)"

subsection \<open>Python string operations\<close>

text \<open>
  The strings of the command line and of the environment are lists of 8-bit characters and
  stand for ASCII text, which is what encoding names and locale values are. \<open>upper\<close> is
  \<^verbatim>\<open>str.upper\<close> on such text: it maps \<^verbatim>\<open>a\<close> to \<^verbatim>\<open>z\<close> and leaves every other ASCII character
  alone. (On letters outside ASCII \<^verbatim>\<open>str.upper\<close> does more; they are outside this model.)
\<close>

definition upper_char :: "char \<Rightarrow> char" where
  "upper_char c =
     (let n = (of_char c :: nat) in if 97 \<le> n \<and> n \<le> 122 then char_of (n - 32) else c)"

definition upper :: "string \<Rightarrow> string" where
  "upper s = map upper_char s"

definition startswith :: "string \<Rightarrow> string \<Rightarrow> bool" where
  "startswith s p = (take (length p) s = p)"

definition endswith :: "string \<Rightarrow> string \<Rightarrow> bool" where
  "endswith s p = (length p \<le> length s \<and> drop (length s - length p) s = p)"

text \<open>
  \<^verbatim>\<open>s.split(sep)\<close> for a one-character separator: the pieces between the separators, one
  more than there are separators. \<open>acc\<close> holds the current piece, reversed.
\<close>

fun split_acc :: "char \<Rightarrow> string \<Rightarrow> string \<Rightarrow> string list" where
  "split_acc sep acc [] = [rev acc]"
| "split_acc sep acc (c # cs) =
     (if c = sep then rev acc # split_acc sep [] cs else split_acc sep (c # acc) cs)"

definition split_dot :: "string \<Rightarrow> string list" where
  "split_dot s = split_acc (CHR ''.'') [] s"

subsection \<open>Command line options and their validation\<close>

text \<open>
  The object \<^verbatim>\<open>optparse\<close> returns: \<^verbatim>\<open>remote\<close> and \<^verbatim>\<open>local\<close> are \<^verbatim>\<open>None\<close> when the option is
  absent; the flags are false when absent.
\<close>

record options =
  opt_remote :: "string option"
  opt_local :: "string option"
  opt_nolocale :: bool
  opt_verbose :: bool
  opt_list :: bool

text \<open>
  \<^verbatim>\<open>guessEncoding\<close>. The codec registry of the Python library is the parameter \<open>known\<close>:
  \<open>known name\<close> holds when \<^verbatim>\<open>''.encode(name)\<close> does not raise \<^verbatim>\<open>LookupError\<close>. The process
  environment is the map \<open>environ\<close>. The loop over the three keys is \<open>guess_loop\<close>; its
  result \<open>None\<close> is the loop running to its end.
\<close>

fun guess_loop :: "(string \<Rightarrow> bool) \<Rightarrow> (string \<rightharpoonup> string) \<Rightarrow> string list \<Rightarrow> string option" where
  "guess_loop known environ [] = None"
| "guess_loop known environ (key # keys) =
     (case environ key of
        None \<Rightarrow> guess_loop known environ keys
      | Some val \<Rightarrow>
          if val = [] then guess_loop known environ keys
          else (case split_dot val of
                  [locale, encoding] \<Rightarrow>
                    if known encoding then Some encoding
                    else guess_loop known environ keys
                | _ \<Rightarrow> guess_loop known environ keys))"

definition guessEncoding :: "(string \<Rightarrow> bool) \<Rightarrow> (string \<rightharpoonup> string) \<Rightarrow> exc + string" where
  "guessEncoding known environ =
     (case guess_loop known environ [''LC_ALL'', ''LC_CTYPE'', ''LANG''] of
        Some encoding \<Rightarrow> Inr encoding
      | None \<Rightarrow>
          fail ''unable to detect the local encoding. Specify it explicitly using the -l option.'')"

text \<open>
  \<^verbatim>\<open>validateCommandLineArguments\<close>. \<^verbatim>\<open>if not self.options.remote\<close> holds for \<^verbatim>\<open>None\<close> and for
  the empty string. The listing printed for \<^verbatim>\<open>--list\<close> goes to standard output and is not
  modelled; the branch ends in \<^verbatim>\<open>sys.exit(0)\<close>.
\<close>

definition falsy :: "string option \<Rightarrow> bool" where
  "falsy v = (case v of None \<Rightarrow> True | Some s \<Rightarrow> s = [])"

definition str_of :: "string option \<Rightarrow> string" where
  "str_of v = (case v of None \<Rightarrow> [] | Some s \<Rightarrow> s)"

definition validateCommandLineArguments ::
  "string \<Rightarrow> (string \<Rightarrow> bool) \<Rightarrow> (string \<rightharpoonup> string) \<Rightarrow> options \<Rightarrow> exc + options" where
  "validateCommandLineArguments progname known environ opts =
     (if opt_list opts then Inl (SystemExit 0 [])
      else if falsy (opt_remote opts) then fail ''the remote encoding must be specified''
      else
        let remote = upper (str_of (opt_remote opts));
            opts1 = opts\<lparr>opt_remote := Some remote\<rparr>
        in if \<not> known remote then
             fail (''remote encoding '' @ [CHR 0x27] @ remote @ [CHR 0x27] @ '' is unknown. Try ''
                   @ progname @ '' --list for a list of valid encodings.'')
           else if falsy (opt_local opts1) then
             (case guessEncoding known environ of
                Inl e \<Rightarrow> Inl e
              | Inr encoding \<Rightarrow> Inr (opts1\<lparr>opt_local := Some (upper encoding)\<rparr>))
           else
             let opts2 = opts1\<lparr>opt_local := Some (upper (str_of (opt_local opts1)))\<rparr>
             in if \<not> known (str_of (opt_remote opts2)) then fail ''the remote encoding is unknown''
                else Inr opts2)"

text \<open>
  The start of \<^verbatim>\<open>TTYConv.__init__\<close>, up to the call of \<^verbatim>\<open>self.spawn\<close>: the result
  \<open>Inr (opts, args)\<close> says that \<^verbatim>\<open>spawn(args)\<close> is reached with the validated options, the
  result \<open>Inl e\<close> that the constructor was left by \<open>e\<close> before any child was forked.
\<close>

definition TTYConv_init ::
  "string \<Rightarrow> (string \<Rightarrow> bool) \<Rightarrow> (string \<rightharpoonup> string) \<Rightarrow> options \<Rightarrow> string list
     \<Rightarrow> exc + (options \<times> string list)" where
  "TTYConv_init progname known environ opts cmdline =
     (case validateCommandLineArguments progname known environ opts of
        Inl e \<Rightarrow> Inl e
      | Inr opts' \<Rightarrow>
          Inr (opts',
               if cmdline = [] then
                 [case environ ''SHELL'' of None \<Rightarrow> ''/bin/bash'' | Some sh \<Rightarrow> sh]
               else cmdline))"

subsection \<open>The locale of the child\<close>

text \<open>
  \<^verbatim>\<open>setLocale\<close>. \<open>items\<close> is \<^verbatim>\<open>os.environ.items()\<close>, the pairs of the process environment
  (a dictionary: no key occurs twice). \<open>loc\<close> and \<open>remote\<close> are the strings
  \<^verbatim>\<open>self.options.local\<close> and \<^verbatim>\<open>self.options.remote\<close> that validation has left. The loop
  body is \<open>setLocale_val\<close>; the new dictionary \<^verbatim>\<open>env\<close> starts empty and gets one entry for
  each pair.
\<close>

definition setLocale_val :: "string \<Rightarrow> string \<Rightarrow> string \<Rightarrow> string \<Rightarrow> string" where
  "setLocale_val loc remote key val =
     (if key = ''LANG'' \<or> startswith key ''LC_'' then
        (if endswith val (''.'' @ upper loc)
         then hd (split_dot val) @ ''.'' @ upper remote
         else val)
      else val)"

definition setLocale ::
  "string \<Rightarrow> string \<Rightarrow> (string \<times> string) list \<Rightarrow> (string \<rightharpoonup> string)" where
  "setLocale loc remote items =
     foldl (\<lambda>env (key, val). env(key \<mapsto> setLocale_val loc remote key val)) Map.empty items"

subsection \<open>Notions for the claims about the command line\<close>

text \<open>
  The rewriting as the specification words it: the character-set suffix of the value is
  replaced, everything before the suffix is kept.
\<close>

definition suffix_replaced :: "string \<Rightarrow> string \<Rightarrow> string \<Rightarrow> string" where
  "suffix_replaced loc remote val =
     take (length val - length (''.'' @ upper loc)) val @ ''.'' @ upper remote"

text \<open>
  The conditions of the specification for \<^verbatim>\<open>guessEncoding\<close>: a variable qualifies when it
  is set, its value has exactly one dot, and the part after the dot names a known
  encoding.
\<close>

definition after_dot :: "string \<Rightarrow> string" where
  "after_dot val = drop 1 (dropWhile (\<lambda>c. c \<noteq> CHR ''.'') val)"

definition qualifies :: "(string \<Rightarrow> bool) \<Rightarrow> (string \<rightharpoonup> string) \<Rightarrow> string \<Rightarrow> bool" where
  "qualifies known environ key =
     (case environ key of
        None \<Rightarrow> False
      | Some val \<Rightarrow> count_list val (CHR ''.'') = 1 \<and> known (after_dot val))"

definition env_suffix :: "(string \<rightharpoonup> string) \<Rightarrow> string \<Rightarrow> string" where
  "env_suffix environ key = (case environ key of None \<Rightarrow> [] | Some val \<Rightarrow> after_dot val)"

subsection \<open>The child process and the kernel\<close>

text \<open>
  What \<^verbatim>\<open>os.waitpid\<close> can report. A status is told apart only by \<^verbatim>\<open>os.WIFEXITED\<close>,
  \<^verbatim>\<open>os.WIFSIGNALED\<close> and \<^verbatim>\<open>os.WIFSTOPPED\<close>, so it is a datatype with one more case for a
  status none of the three accepts. \<open>WaitPending\<close> is the answer with pid 0, \<open>WaitError\<close> an
  \<^verbatim>\<open>OSError\<close> with its errno.
\<close>

datatype wstatus = Exited int | Signaled int | Stopped int | Continued

datatype waitpid_result = WaitError nat | WaitPending | WaitReaped wstatus

datatype signal = SIGHUP | SIGINT | SIGKILL | SIGPIPE | SIGTERM | SIGCONT

type_synonym byte = "8 word"

text \<open>
  The system calls the session makes are recorded in a trace: signals handed to
  \<^verbatim>\<open>os.kill\<close>, calls of \<^verbatim>\<open>time.sleep\<close>, descriptors handed to \<^verbatim>\<open>os.close\<close>, bytes obtained
  from \<^verbatim>\<open>os.read\<close>, bytes accepted by \<^verbatim>\<open>os.write\<close>, and the two changes of the terminal mode
  (\<^verbatim>\<open>tty.setraw\<close>, \<^verbatim>\<open>tty.tcsetattr\<close>).
\<close>

datatype event =
    Kill signal
  | Sleep
  | Close int
  | Read int "byte list"
  | Write int "byte list"
  | SetRaw
  | Restore

text \<open>
  The operating system is a parameter: \<open>waitpid_answer k i nohang\<close> is what the \<open>i\<close>-th call
  of \<^verbatim>\<open>os.waitpid\<close> returns (\<open>nohang\<close> says that \<^verbatim>\<open>WNOHANG\<close> was passed), \<open>kill_answer k i\<close> and
  \<open>close_answer k i\<close> are \<open>None\<close> when the \<open>i\<close>-th \<^verbatim>\<open>os.kill\<close> or \<^verbatim>\<open>os.close\<close> succeeds and the
  errno of the \<^verbatim>\<open>OSError\<close> otherwise. \<open>read_answer k i\<close> is the errno or the bytes of the
  \<open>i\<close>-th \<^verbatim>\<open>os.read\<close>, \<open>write_answer k i\<close> the errno or the number of bytes the \<open>i\<close>-th
  \<^verbatim>\<open>os.write\<close> is ready to take, \<open>select_answer k i\<close> what the \<open>i\<close>-th call of
  \<^verbatim>\<open>select.select\<close> ends with: the readable descriptors, or the errno of a \<^verbatim>\<open>select.error\<close>.
  \<open>strerror k\<close> is the text of an errno.
\<close>

record kernel =
  waitpid_answer :: "nat \<Rightarrow> bool \<Rightarrow> waitpid_result"
  kill_answer :: "nat \<Rightarrow> nat option"
  close_answer :: "nat \<Rightarrow> nat option"
  read_answer :: "nat \<Rightarrow> nat + byte list"
  write_answer :: "nat \<Rightarrow> nat + nat"
  select_answer :: "nat \<Rightarrow> nat + int list"
  strerror :: "nat \<Rightarrow> string"

text \<open>
  The fields of the \<^verbatim>\<open>TTYConv\<close> object that the process supervision reads and writes, the
  number of calls made so far to each system call, and the trace.
\<close>

record session =
  terminated :: bool
  status :: "wstatus option"
  flag_eof :: bool
  pid :: int
  child_fd :: int
  closed :: bool
  n_waitpid :: nat
  n_kill :: nat
  n_close :: nat
  n_read :: nat
  n_write :: nat
  n_select :: nat
  trace :: "event list"

text \<open>
  A method is a function from the session to a result and the session it leaves; an
  exception leaves the session as it was when raised.
\<close>

type_synonym 'a action = "session \<Rightarrow> (exc + 'a) \<times> session"

definition and_then :: "'a action \<Rightarrow> ('a \<Rightarrow> 'b action) \<Rightarrow> 'b action" where
  "and_then m f s = (case m s of (Inl e, s1) \<Rightarrow> (Inl e, s1) | (Inr x, s1) \<Rightarrow> f x s1)"

definition return :: "'a \<Rightarrow> 'a action" where
  "return x s = (Inr x, s)"

definition os_waitpid :: "kernel \<Rightarrow> bool \<Rightarrow> session \<Rightarrow> waitpid_result \<times> session" where
  "os_waitpid k nohang s =
     (waitpid_answer k (n_waitpid s) nohang, s\<lparr>n_waitpid := Suc (n_waitpid s)\<rparr>)"

definition os_kill :: "kernel \<Rightarrow> signal \<Rightarrow> unit action" where
  "os_kill k sig s =
     (let s1 = s\<lparr>n_kill := Suc (n_kill s), trace := trace s @ [Kill sig]\<rparr>
      in case kill_answer k (n_kill s) of
           None \<Rightarrow> (Inr (), s1)
         | Some errno \<Rightarrow> (Inl (OSError errno), s1))"

definition os_close :: "kernel \<Rightarrow> int \<Rightarrow> unit action" where
  "os_close k fd s =
     (let s1 = s\<lparr>n_close := Suc (n_close s), trace := trace s @ [Close fd]\<rparr>
      in case close_answer k (n_close s) of
           None \<Rightarrow> (Inr (), s1)
         | Some errno \<Rightarrow> (Inl (OSError errno), s1))"

definition sleep :: "unit action" where
  "sleep s = (Inr (), s\<lparr>trace := trace s @ [Sleep]\<rparr>)"

text \<open>
  \<^verbatim>\<open>isalive\<close>. \<open>reaped\<close> is its last part, the \<^verbatim>\<open>if/elif\<close> chain over the status of a child that
  \<^verbatim>\<open>waitpid\<close> reported. Both handlers of a failed \<^verbatim>\<open>waitpid\<close> begin with the test
  \<^verbatim>\<open>e[0] == errno.ECHILD\<close>; an \<^verbatim>\<open>OSError\<close> cannot be subscripted, so the test itself raises
  \<^verbatim>\<open>TypeError\<close> and neither the \<^verbatim>\<open>ExceptionPexpect\<close> nor the re-raise below it is reached.
\<close>

definition reaped :: "wstatus \<Rightarrow> bool action" where
  "reaped st s =
     (case st of
        Exited _ \<Rightarrow> (Inr False, s\<lparr>status := Some st, terminated := True\<rparr>)
      | Signaled _ \<Rightarrow> (Inr False, s\<lparr>status := Some st, terminated := True\<rparr>)
      | Stopped _ \<Rightarrow>
          (fail (''the remote terminal process is stopped. This is not allowed. '' @
                 ''Is some other process attempting job control with our child PID?''), s)
      | Continued \<Rightarrow> (Inr False, s))"

definition isalive :: "kernel \<Rightarrow> bool action" where
  "isalive k s =
     (if terminated s then (Inr False, s)
      else
        let nohang = \<not> flag_eof s in
        case os_waitpid k nohang s of
          (WaitError errno, s1) \<Rightarrow> (Inl TypeError, s1)
        | (WaitReaped st, s1) \<Rightarrow> reaped st s1
        | (WaitPending, s1) \<Rightarrow>
            (case os_waitpid k nohang s1 of
               (WaitError errno, s2) \<Rightarrow> (Inl TypeError, s2)
             | (WaitPending, s2) \<Rightarrow> (Inr True, s2)
             | (WaitReaped st, s2) \<Rightarrow> reaped st s2))"

text \<open>\<^verbatim>\<open>kill\<close>: the signal is sent only if \<^verbatim>\<open>isalive\<close> says the child is running.\<close>

definition kill :: "kernel \<Rightarrow> signal \<Rightarrow> unit action" where
  "kill k sig =
     and_then (isalive k) (\<lambda>alive. if alive then os_kill k sig else return ())"

text \<open>
  \<^verbatim>\<open>terminate\<close>. \<open>terminate_try\<close> is the body of its \<^verbatim>\<open>try\<close> block; the handler catches
  \<^verbatim>\<open>OSError\<close> only (a failed \<^verbatim>\<open>os.kill\<close>; the \<^verbatim>\<open>TypeError\<close> of \<^verbatim>\<open>isalive\<close> passes through),
  sleeps once more and returns the negated liveness.
\<close>

definition terminate_try :: "kernel \<Rightarrow> bool \<Rightarrow> bool action" where
  "terminate_try k force =
     and_then (kill k SIGHUP) (\<lambda>_.
     and_then sleep (\<lambda>_.
     and_then (isalive k) (\<lambda>alive.
     if \<not> alive then return True
     else
       and_then (kill k SIGCONT) (\<lambda>_.
       and_then sleep (\<lambda>_.
       and_then (isalive k) (\<lambda>alive.
       if \<not> alive then return True
       else
         and_then (kill k SIGINT) (\<lambda>_.
         and_then sleep (\<lambda>_.
         and_then (isalive k) (\<lambda>alive.
         if \<not> alive then return True
         else if force then
           and_then (kill k SIGKILL) (\<lambda>_.
           and_then sleep (\<lambda>_.
           and_then (isalive k) (\<lambda>alive.
           if \<not> alive then return True else return False)))
         else return False)))))))))"

definition terminate :: "kernel \<Rightarrow> bool \<Rightarrow> bool action" where
  "terminate k force =
     and_then (isalive k) (\<lambda>alive.
     if \<not> alive then return True
     else (\<lambda>s.
       case terminate_try k force s of
         (Inl (OSError errno), s1) \<Rightarrow>
           and_then sleep (\<lambda>_.
           and_then (isalive k) (\<lambda>alive. return (\<not> alive))) s1
       | r \<Rightarrow> r))"

text \<open>\<^verbatim>\<open>close\<close>.\<close>

definition close :: "kernel \<Rightarrow> bool \<Rightarrow> unit action" where
  "close k force s =
     (if \<not> closed s then
        and_then (os_close k (child_fd s)) (\<lambda>_.
        and_then sleep (\<lambda>_.
        and_then (isalive k) (\<lambda>alive.
        and_then
          (if alive then
             and_then (terminate k force) (\<lambda>ok.
               if \<not> ok then
                 (\<lambda>s. (Inl (ExceptionPexpect
                     ''close() could not terminate the child using terminate()''), s))
               else return ())
           else return ())
          (\<lambda>_ s. (Inr (), s\<lparr>child_fd := - 1, closed := True\<rparr>))))) s
      else (Inr (), s))"

subsection \<open>Notions for the claims about termination\<close>

text \<open>
  The signals of the escalation in their order, the signals a trace sends, and the
  property that every \<^verbatim>\<open>os.kill\<close> in a trace is directly followed by a sleep.
\<close>

definition escalation :: "bool \<Rightarrow> signal list" where
  "escalation force = [SIGHUP, SIGCONT, SIGINT] @ (if force then [SIGKILL] else [])"

fun signals_sent :: "event list \<Rightarrow> signal list" where
  "signals_sent [] = []"
| "signals_sent (Kill sig # evs) = sig # signals_sent evs"
| "signals_sent (_ # evs) = signals_sent evs"

fun paused_after_kill :: "event list \<Rightarrow> bool" where
  "paused_after_kill [] = True"
| "paused_after_kill (Kill sig # Sleep # evs) = paused_after_kill evs"
| "paused_after_kill (Kill sig # evs) = False"
| "paused_after_kill (_ # evs) = paused_after_kill evs"

text \<open>
  A kernel on which no \<^verbatim>\<open>os.kill\<close> fails and every \<^verbatim>\<open>os.waitpid\<close> either has nothing to report
  or reports a child that exited or was killed by a signal.
\<close>

definition well_behaved :: "kernel \<Rightarrow> bool" where
  "well_behaved k =
     (\<forall>i nohang.
        kill_answer k i = None \<and>
        (waitpid_answer k i nohang = WaitPending \<or>
         (\<exists>c. waitpid_answer k i nohang = WaitReaped (Exited c)) \<or>
         (\<exists>c. waitpid_answer k i nohang = WaitReaped (Signaled c))))"

text \<open>
  What the kernel has in store for the liveness checks. A check that starts at the \<open>n\<close>-th
  call of \<^verbatim>\<open>os.waitpid\<close> finds the child alive when that call and the next have nothing to
  report; \<open>checks_passed k nohang n m\<close> counts how many checks in a row, of at most \<open>m\<close> and
  each two calls after the one before, find the child alive. \<open>checks force\<close> is the number of
  checks of a whole escalation: one at entry, and for every signal one before it is sent and
  one after the pause.
\<close>

definition looks_alive :: "kernel \<Rightarrow> bool \<Rightarrow> nat \<Rightarrow> bool" where
  "looks_alive k nohang n =
     (waitpid_answer k n nohang = WaitPending \<and> waitpid_answer k (Suc n) nohang = WaitPending)"

fun checks_passed :: "kernel \<Rightarrow> bool \<Rightarrow> nat \<Rightarrow> nat \<Rightarrow> nat" where
  "checks_passed k nohang n 0 = 0"
| "checks_passed k nohang n (Suc m) =
     (if looks_alive k nohang n then Suc (checks_passed k nohang (Suc (Suc n)) m) else 0)"

definition checks :: "bool \<Rightarrow> nat" where
  "checks force = Suc (2 * length (escalation force))"

text \<open>
  One step of the escalation as the source repeats it: send, sleep, check, and go on with
  \<open>cont\<close> if the child is still alive. \<open>traced\<close> and \<open>decides\<close> are what the proofs carry
  through the steps.
\<close>

definition stage :: "kernel \<Rightarrow> signal \<Rightarrow> bool action \<Rightarrow> bool action" where
  "stage k sig cont =
     and_then (kill k sig) (\<lambda>_.
     and_then sleep (\<lambda>_.
     and_then (isalive k) (\<lambda>alive. if \<not> alive then return True else cont)))"

definition traced :: "signal list \<Rightarrow> 'a action \<Rightarrow> bool" where
  "traced sigs m =
     (\<forall>s. \<exists>evs. trace (snd (m s)) = trace s @ evs \<and> subseq (signals_sent evs) sigs \<and>
        (paused_after_kill evs \<or>
         ((\<exists>errno. fst (m s) = Inl (OSError errno)) \<and> paused_after_kill (evs @ [Sleep]))))"

definition decides :: "kernel \<Rightarrow> signal list \<Rightarrow> bool action \<Rightarrow> bool" where
  "decides k sigs m =
     (\<forall>s. \<not> terminated s \<longrightarrow>
        (\<exists>evs s'. m s =
             (Inr (checks_passed k (\<not> flag_eof s) (n_waitpid s) (2 * length sigs)
                     < 2 * length sigs), s') \<and>
           trace s' = trace s @ evs \<and>
           signals_sent evs =
             take (Suc (checks_passed k (\<not> flag_eof s) (n_waitpid s) (2 * length sigs)) div 2)
               sigs))"

text \<open>
  A session as \<^verbatim>\<open>__init__\<close> and \<^verbatim>\<open>spawn\<close> leave it in the parent, and four children: one that
  never dies, one that dies of the fourth signal only, one that dies of the third, one that
  is found dead at the first look.
\<close>

definition fresh_session :: "int \<Rightarrow> int \<Rightarrow> session" where
  "fresh_session p fd =
     \<lparr>terminated = False, status = None, flag_eof = False, pid = p, child_fd = fd,
      closed = False, n_waitpid = 0, n_kill = 0, n_close = 0, n_read = 0, n_write = 0,
      n_select = 0, trace = []\<rparr>"

definition stubborn_child :: kernel where
  "stubborn_child =
     \<lparr>waitpid_answer = (\<lambda>i nohang. WaitPending), kill_answer = (\<lambda>i. None),
      close_answer = (\<lambda>i. None), read_answer = (\<lambda>i. Inr []),
      write_answer = (\<lambda>i. Inr 0), select_answer = (\<lambda>i. Inr []), strerror = (\<lambda>errno. [])\<rparr>"

definition killable_child :: kernel where
  "killable_child =
     \<lparr>waitpid_answer = (\<lambda>i nohang. if i < 16 then WaitPending else WaitReaped (Signaled 9)),
      kill_answer = (\<lambda>i. None), close_answer = (\<lambda>i. None), read_answer = (\<lambda>i. Inr []),
      write_answer = (\<lambda>i. Inr 0), select_answer = (\<lambda>i. Inr []), strerror = (\<lambda>errno. [])\<rparr>"

definition interruptible_child :: kernel where
  "interruptible_child =
     \<lparr>waitpid_answer = (\<lambda>i nohang. if i < 12 then WaitPending else WaitReaped (Signaled 2)),
      kill_answer = (\<lambda>i. None), close_answer = (\<lambda>i. None), read_answer = (\<lambda>i. Inr []),
      write_answer = (\<lambda>i. Inr 0), select_answer = (\<lambda>i. Inr []), strerror = (\<lambda>errno. [])\<rparr>"

definition hangup_child :: kernel where
  "hangup_child =
     \<lparr>waitpid_answer = (\<lambda>i nohang. WaitReaped (Signaled 1)), kill_answer = (\<lambda>i. None),
      close_answer = (\<lambda>i. None), read_answer = (\<lambda>i. Inr []),
      write_answer = (\<lambda>i. Inr 0), select_answer = (\<lambda>i. Inr []), strerror = (\<lambda>errno. [])\<rparr>"

subsection \<open>Encodings of the codec library\<close>

text \<open>
  The program hands every conversion to Python's \<^verbatim>\<open>codecs\<close> library, which is not part of
  the repository. An encoding is therefore a parameter: \<open>dec_head\<close> says how its decoder
  reads the head of a non-empty byte string (a character made of the first \<open>n\<close> bytes,
  \<open>n\<close> bytes that start no character, or too few bytes to tell), \<open>enc_char\<close> gives the bytes
  its encoder writes for a character, \<open>None\<close> if it has none. Text is a list of Unicode
  code points. This covers the encodings that convert character by character without a
  shift state.
\<close>

type_synonym codepoint = nat

type_synonym unicode = "codepoint list"

datatype decoded = Decoded codepoint nat | Malformed nat | Truncated

record encoding =
  dec_head :: "byte list \<Rightarrow> decoded"
  enc_char :: "codepoint \<Rightarrow> byte list option"

text \<open>
  Decoding with \<^verbatim>\<open>errors='replace'\<close>: every malformed stretch becomes U+FFFD and decoding
  goes on behind it. At a truncated tail a final decoding (\<^verbatim>\<open>codecs.decode\<close>) replaces the
  tail by one U+FFFD; a decoding that is not final (an incremental decoder) stops and
  hands the tail back. The result is the text and the bytes not consumed. A step
  consumes at least one byte.
\<close>

function replace_decode :: "encoding \<Rightarrow> bool \<Rightarrow> byte list \<Rightarrow> unicode \<times> byte list" where
  "replace_decode enc final bs =
     (if bs = [] then ([], [])
      else case dec_head enc bs of
             Decoded c n \<Rightarrow>
               (case replace_decode enc final (drop (max 1 n) bs) of
                  (chars, rest) \<Rightarrow> (c # chars, rest))
           | Malformed n \<Rightarrow>
               (case replace_decode enc final (drop (max 1 n) bs) of
                  (chars, rest) \<Rightarrow> (0xFFFD # chars, rest))
           | Truncated \<Rightarrow> if final then ([0xFFFD], []) else ([], bs))"
  by pat_completeness auto
termination
  by (relation "measure (\<lambda>(enc, final, bs). length bs)") auto

declare replace_decode.simps [simp del]

text \<open>
  Encoding with \<^verbatim>\<open>errors='replace'\<close>: a character the encoding does not have is replaced by
  \<^verbatim>\<open>?\<close> (U+003F), encoded in its turn; if that fails too, \<^verbatim>\<open>UnicodeEncodeError\<close> is raised.
\<close>

fun replace_encode :: "encoding \<Rightarrow> unicode \<Rightarrow> exc + byte list" where
  "replace_encode enc [] = Inr []"
| "replace_encode enc (c # cs) =
     (case (case enc_char enc c of Some bs \<Rightarrow> Some bs | None \<Rightarrow> enc_char enc 0x3F) of
        None \<Rightarrow> Inl UnicodeEncodeError
      | Some bs \<Rightarrow>
          (case replace_encode enc cs of
             Inl e \<Rightarrow> Inl e
           | Inr out \<Rightarrow> Inr (bs @ out)))"

subsection \<open>The transcoder of \<^verbatim>\<open>ttyconv.py\<close>\<close>

text \<open>
  \<^verbatim>\<open>lenientDecode\<close> and \<^verbatim>\<open>lenientEncode\<close> call \<^verbatim>\<open>codecs.decode\<close> and \<^verbatim>\<open>codecs.encode\<close> with
  \<^verbatim>\<open>errors='replace'\<close>. Their parameter \<^verbatim>\<open>replace\<close> is not used by the body. Nothing is kept
  from one call to the next.
\<close>

definition lenientDecode :: "byte list \<Rightarrow> encoding \<Rightarrow> unicode \<Rightarrow> unicode" where
  "lenientDecode string encoding replace = fst (replace_decode encoding True string)"

definition lenientEncode :: "unicode \<Rightarrow> encoding \<Rightarrow> unicode \<Rightarrow> exc + byte list" where
  "lenientEncode string encoding replace = replace_encode encoding string"

definition remoteToLocal :: "encoding \<Rightarrow> encoding \<Rightarrow> byte list \<Rightarrow> exc + byte list" where
  "remoteToLocal remote loc s = lenientEncode (lenientDecode s remote [0x3F]) loc [0x3F]"

definition localToRemote :: "encoding \<Rightarrow> encoding \<Rightarrow> byte list \<Rightarrow> exc + byte list" where
  "localToRemote remote loc s = lenientEncode (lenientDecode s loc [0x3F]) remote [0x3F]"

text \<open>
  \<^verbatim>\<open>x_lenientCodec\<close>, which no method calls. \<open>codec\<close> is the closure: it returns the
  converted string or raises a \<^verbatim>\<open>UnicodeError\<close>, given here by its \<^verbatim>\<open>start\<close> and \<^verbatim>\<open>end\<close>.
  The loop need not end (an error with \<^verbatim>\<open>end = 0\<close> leaves \<^verbatim>\<open>s_left\<close> as it is), so the
  result is an option, \<open>None\<close> for a run that does not return. An error raised by the call
  inside the handler is not caught.
\<close>

partial_function (option) x_loop ::
  "('a list \<Rightarrow> (nat \<times> nat) + 'b list) \<Rightarrow> 'b list \<Rightarrow> 'b list \<Rightarrow> 'a list
     \<Rightarrow> (exc + 'b list) option" where
  "x_loop codec replace retval s_left =
     (if s_left = [] then Some (Inr retval)
      else case codec s_left of
             Inr out \<Rightarrow> Some (Inr (retval @ out))
           | Inl (start, stop) \<Rightarrow>
               (case codec (take start s_left) of
                  Inl (start', stop') \<Rightarrow> Some (Inl (UnicodeError start' stop'))
                | Inr out \<Rightarrow>
                    x_loop codec replace (retval @ out @ replace) (drop stop s_left)))"

definition x_lenientCodec ::
  "('a list \<Rightarrow> (nat \<times> nat) + 'b list) \<Rightarrow> 'a list \<Rightarrow> 'b list \<Rightarrow> (exc + 'b list) option" where
  "x_lenientCodec codec string replace = x_loop codec replace [] string"

subsection \<open>The transcoder of \<^verbatim>\<open>ttyconv2.py\<close>\<close>

text \<open>
  \<^verbatim>\<open>self.remote_decoder\<close> is an incremental decoder made with \<^verbatim>\<open>errors="replace"\<close>. Its state
  is the buffer of bytes held back; \<^verbatim>\<open>decode(data)\<close> decodes the buffer followed by the
  data, not final, and keeps what was not consumed. The result is the text and the new
  buffer.
\<close>

definition decoder_decode :: "encoding \<Rightarrow> byte list \<Rightarrow> byte list \<Rightarrow> unicode \<times> byte list" where
  "decoder_decode enc buffer input = replace_decode enc False (buffer @ input)"

text \<open>
  \<^verbatim>\<open>self.local_encoding\<close> is what the argument parser left in \<^verbatim>\<open>args.local_encoding\<close>: the
  \<^verbatim>\<open>CodecInfo\<close> of UTF-8, the default, or the \<^verbatim>\<open>str\<close> given with \<^verbatim>\<open>-l\<close> (the option has no
  \<^verbatim>\<open>type\<close>). \<open>local_encode\<close> is the call \<^verbatim>\<open>self.local_encoding.encode(chars, "replace")\<close> with
  the unpacking of its result into \<^verbatim>\<open>data_out, num_bytes\<close> and what \<^verbatim>\<open>os.write\<close> then gets. On a
  \<^verbatim>\<open>CodecInfo\<close> it encodes the text. On a \<^verbatim>\<open>str\<close> it is \<^verbatim>\<open>str.encode\<close>, which takes \<open>chars\<close> for
  the name of an encoding, looked up in the \<open>registry\<close>, and encodes the \<^verbatim>\<open>str\<close> itself: the
  result is a \<^verbatim>\<open>bytes\<close> object, whose unpacking raises \<^verbatim>\<open>ValueError\<close> unless it has two
  elements, and then \<^verbatim>\<open>os.write\<close> is handed an \<^verbatim>\<open>int\<close> and raises \<^verbatim>\<open>TypeError\<close>.
\<close>

datatype local_encoding = CodecInfo encoding | Str unicode

definition local_encode ::
  "(unicode \<Rightarrow> encoding option) \<Rightarrow> local_encoding \<Rightarrow> unicode \<Rightarrow> exc + byte list" where
  "local_encode registry loc chars =
     (case loc of
        CodecInfo enc \<Rightarrow> replace_encode enc chars
      | Str name \<Rightarrow>
          (case registry chars of
             None \<Rightarrow> Inl LookupError
           | Some enc \<Rightarrow>
               (case replace_encode enc name of
                  Inl e \<Rightarrow> Inl e
                | Inr bs \<Rightarrow> if length bs = 2 then Inl TypeError else Inl ValueError)))"

text \<open>
  \<^verbatim>\<open>handle_output_from_system\<close> for a read that returned \<open>data\<close>, with the session not done.
  The result is the decoder's new buffer and the bytes handed to \<^verbatim>\<open>os.write(1, ...)\<close>,
  \<open>None\<close> when no character was completed and nothing is written.
\<close>

definition handle_output_from_system ::
  "(unicode \<Rightarrow> encoding option) \<Rightarrow> encoding \<Rightarrow> local_encoding \<Rightarrow> byte list \<Rightarrow> byte list
     \<Rightarrow> byte list \<times> (exc + byte list option)" where
  "handle_output_from_system registry remote loc buffer data =
     (case decoder_decode remote buffer data of
        (chars, buffer') \<Rightarrow>
          (buffer',
           if chars \<noteq> [] then
             (case local_encode registry loc chars of
                Inl e \<Rightarrow> Inl e
              | Inr data_out \<Rightarrow> Inr (Some data_out))
           else Inr None))"

subsection \<open>Notions for the claims about transcoding\<close>

text \<open>
  A decoder fit for incremental use: what it reads at the head of the input is not
  changed by bytes that arrive later, and lies within the bytes it has.
\<close>

definition incremental :: "encoding \<Rightarrow> bool" where
  "incremental enc =
     (\<forall>bs ext.
        (\<forall>c n. dec_head enc bs = Decoded c n \<longrightarrow>
           1 \<le> n \<and> n \<le> length bs \<and> dec_head enc (bs @ ext) = Decoded c n) \<and>
        (\<forall>n. dec_head enc bs = Malformed n \<longrightarrow>
           1 \<le> n \<and> n \<le> length bs \<and> dec_head enc (bs @ ext) = Malformed n))"



subsection \<open>UTF-8, ASCII, ISO-8859-1 and Shift JIS\<close>

text \<open>
  UTF-8 as CPython 3 decodes it (\<^verbatim>\<open>utf8_decode\<close> in \<^verbatim>\<open>stringlib/codecs.h\<close>), on the values of
  the bytes: overlong forms, surrogates and code points beyond U+10FFFF are malformed, and
  the length of a malformed stretch is the number of bytes read before the offending one.
\<close>

definition continuation :: "nat \<Rightarrow> bool" where
  "continuation b = (0x80 \<le> b \<and> b < 0xC0)"

definition utf8_head :: "nat list \<Rightarrow> decoded" where
  "utf8_head bs =
     (case bs of [] \<Rightarrow> Truncated | ch # rest1 \<Rightarrow>
      if ch < 0x80 then Decoded ch 1
      else if ch < 0xE0 then
        (if ch < 0xC2 then Malformed 1
         else case rest1 of
                [] \<Rightarrow> Truncated
              | ch2 # _ \<Rightarrow>
                  if \<not> continuation ch2 then Malformed 1
                  else Decoded (ch * 64 + ch2 - 0x3080) 2)
      else if ch < 0xF0 then
        (case rest1 of
           [] \<Rightarrow> Truncated
         | ch2 # rest2 \<Rightarrow>
             if \<not> continuation ch2 \<or> (if ch2 < 0xA0 then ch = 0xE0 else ch = 0xED)
             then Malformed 1
             else case rest2 of
                    [] \<Rightarrow> Truncated
                  | ch3 # _ \<Rightarrow>
                      if \<not> continuation ch3 then Malformed 2
                      else Decoded (ch * 4096 + ch2 * 64 + ch3 - 0xE2080) 3)
      else if ch < 0xF5 then
        (case rest1 of
           [] \<Rightarrow> Truncated
         | ch2 # rest2 \<Rightarrow>
             if \<not> continuation ch2 \<or> (if ch2 < 0x90 then ch = 0xF0 else ch = 0xF4)
             then Malformed 1
             else case rest2 of
                    [] \<Rightarrow> Truncated
                  | ch3 # rest3 \<Rightarrow>
                      if \<not> continuation ch3 then Malformed 2
                      else case rest3 of
                             [] \<Rightarrow> Truncated
                           | ch4 # _ \<Rightarrow>
                               if \<not> continuation ch4 then Malformed 3
                               else Decoded (ch * 262144 + ch2 * 4096 + ch3 * 64 + ch4
                                             - 0x3C82080) 4)
      else Malformed 1)"

definition utf8_bytes :: "codepoint \<Rightarrow> nat list option" where
  "utf8_bytes c =
     (if c < 0x80 then Some [c]
      else if c < 0x800 then Some [0xC0 + c div 64, 0x80 + c mod 64]
      else if 0xD800 \<le> c \<and> c \<le> 0xDFFF then None
      else if c < 0x10000 then
        Some [0xE0 + c div 4096, 0x80 + c div 64 mod 64, 0x80 + c mod 64]
      else if c \<le> 0x10FFFF then
        Some [0xF0 + c div 262144, 0x80 + c div 4096 mod 64, 0x80 + c div 64 mod 64,
              0x80 + c mod 64]
      else None)"

definition utf_8 :: encoding where
  "utf_8 =
     \<lparr>dec_head = (\<lambda>bs. utf8_head (map unat bs)),
      enc_char = (\<lambda>c. map_option (map of_nat) (utf8_bytes c))\<rparr>"

text \<open>ASCII and ISO-8859-1: one byte for each character.\<close>

definition ascii :: encoding where
  "ascii =
     \<lparr>dec_head = (\<lambda>bs. case bs of
                         [] \<Rightarrow> Truncated
                       | b # _ \<Rightarrow> if unat b < 0x80 then Decoded (unat b) 1 else Malformed 1),
      enc_char = (\<lambda>c. if c < 0x80 then Some [of_nat c] else None)\<rparr>"

definition latin_1 :: encoding where
  "latin_1 =
     \<lparr>dec_head = (\<lambda>bs. case bs of [] \<Rightarrow> Truncated | b # _ \<Rightarrow> Decoded (unat b) 1),
      enc_char = (\<lambda>c. if c < 0x100 then Some [of_nat c] else None)\<rparr>"


subsection \<open>The relay of \<^verbatim>\<open>ttyconv.py\<close>\<close>

definition EIO :: nat where "EIO = 5"

definition STDIN_FILENO :: int where "STDIN_FILENO = 0"

definition STDOUT_FILENO :: int where "STDOUT_FILENO = 1"

text \<open>
  \<^verbatim>\<open>os.write\<close> takes at most the bytes it is given and returns how many it took; the trace
  records the bytes taken. \<^verbatim>\<open>os.read(fd, 1024)\<close> returns at most 1024 bytes.
\<close>

definition os_write :: "kernel \<Rightarrow> int \<Rightarrow> byte list \<Rightarrow> nat action" where
  "os_write k fd data s =
     (case write_answer k (n_write s) of
        Inl errno \<Rightarrow> (Inl (OSError errno), s\<lparr>n_write := Suc (n_write s)\<rparr>)
      | Inr n \<Rightarrow>
          (let m = min n (length data)
           in (Inr m, s\<lparr>n_write := Suc (n_write s),
                         trace := trace s @ [Write fd (take m data)]\<rparr>)))"

definition os_read :: "kernel \<Rightarrow> int \<Rightarrow> (byte list) action" where
  "os_read k fd s =
     (case read_answer k (n_read s) of
        Inl errno \<Rightarrow> (Inl (OSError errno), s\<lparr>n_read := Suc (n_read s)\<rparr>)
      | Inr bytes \<Rightarrow>
          (let data = take 1024 bytes
           in (Inr data, s\<lparr>n_read := Suc (n_read s), trace := trace s @ [Read fd data]\<rparr>)))"

text \<open>
  The wrapper \<^verbatim>\<open>select\<close>, asked for the readable ones of the two descriptors. The handler of
  \<^verbatim>\<open>select.error\<close> begins with the test \<^verbatim>\<open>e[0] != errno.EINTR\<close>, which raises \<^verbatim>\<open>TypeError\<close>
  whatever the errno is.
\<close>

definition select :: "kernel \<Rightarrow> (int list) action" where
  "select k s =
     (case select_answer k (n_select s) of
        Inl errno \<Rightarrow> (Inl TypeError, s\<lparr>n_select := Suc (n_select s)\<rparr>)
      | Inr r \<Rightarrow> (Inr r, s\<lparr>n_select := Suc (n_select s)\<rparr>))"

text \<open>
  The method \<^verbatim>\<open>write\<close> (here \<open>write_data\<close>): the loop
  \<^verbatim>\<open>while data != '' and self.isalive()\<close>. \<open>data\<close> is a \<^verbatim>\<open>bytes\<close> object (the result of
  \<^verbatim>\<open>codecs.encode\<close>) and \<^verbatim>\<open>''\<close> a \<^verbatim>\<open>str\<close>, so the first test, \<open>differs_from_empty_str\<close>, holds
  for every \<open>data\<close>, the empty one too: the loop goes on until \<^verbatim>\<open>isalive\<close> is false or a call
  raises. It gets fuel, one unit for each test of the loop condition; \<open>None\<close> is a run that
  has not returned when the fuel is spent.
\<close>

definition differs_from_empty_str :: "byte list \<Rightarrow> bool" where
  "differs_from_empty_str data = True"

fun write_data ::
  "nat \<Rightarrow> kernel \<Rightarrow> int \<Rightarrow> byte list \<Rightarrow> session \<Rightarrow> ((exc + unit) \<times> session) option" where
  "write_data 0 k fd data s = None"
| "write_data (Suc fuel) k fd data s =
     (if \<not> differs_from_empty_str data then Some (Inr (), s)
      else case isalive k s of
             (Inl e, s1) \<Rightarrow> Some (Inl e, s1)
           | (Inr alive, s1) \<Rightarrow>
               if \<not> alive then Some (Inr (), s1)
               else (case os_write k fd data s1 of
                       (Inl e, s2) \<Rightarrow> Some (Inl e, s2)
                     | (Inr n, s2) \<Rightarrow> write_data fuel k fd (drop n data) s2))"

text \<open>
  One pass through the body of the loop of \<^verbatim>\<open>interact\<close>: the remote side first, written to
  standard output with a single \<^verbatim>\<open>os.write\<close> whose result is dropped, then the local side,
  written to the child with \<^verbatim>\<open>self.write\<close>.
\<close>

definition remote_side :: "kernel \<Rightarrow> encoding \<Rightarrow> encoding \<Rightarrow> unit action" where
  "remote_side k remote loc s =
     (case os_read k (child_fd s) s of
        (Inl e, s1) \<Rightarrow> (Inl e, s1)
      | (Inr data, s1) \<Rightarrow>
          (case remoteToLocal remote loc data of
             Inl e \<Rightarrow> (Inl e, s1)
           | Inr out \<Rightarrow>
               (case os_write k STDOUT_FILENO out s1 of
                  (Inl e, s2) \<Rightarrow> (Inl e, s2)
                | (Inr n, s2) \<Rightarrow> (Inr (), s2))))"

definition local_side ::
  "nat \<Rightarrow> kernel \<Rightarrow> encoding \<Rightarrow> encoding \<Rightarrow> session \<Rightarrow> ((exc + unit) \<times> session) option" where
  "local_side fuel k remote loc s =
     (case os_read k STDIN_FILENO s of
        (Inl e, s1) \<Rightarrow> Some (Inl e, s1)
      | (Inr data, s1) \<Rightarrow>
          (case localToRemote remote loc data of
             Inl e \<Rightarrow> Some (Inl e, s1)
           | Inr out \<Rightarrow> write_data fuel k (child_fd s1) out s1))"

definition interact_body ::
  "nat \<Rightarrow> kernel \<Rightarrow> encoding \<Rightarrow> encoding \<Rightarrow> session \<Rightarrow> ((exc + unit) \<times> session) option" where
  "interact_body fuel k remote loc s =
     (case select k s of
        (Inl e, s1) \<Rightarrow> Some (Inl e, s1)
      | (Inr r, s1) \<Rightarrow>
          (case (if child_fd s1 \<in> set r then remote_side k remote loc s1 else (Inr (), s1)) of
             (Inl e, s2) \<Rightarrow> Some (Inl e, s2)
           | (Inr _, s2) \<Rightarrow>
               if STDIN_FILENO \<in> set r then local_side fuel k remote loc s2
               else Some (Inr (), s2)))"

text \<open>
  The loop \<^verbatim>\<open>while self.isalive()\<close>, with fuel for its own condition and for the write loop
  inside, and \<^verbatim>\<open>interact\<close>: raw mode, the loop, the handler for \<^verbatim>\<open>OSError\<close> (\<^verbatim>\<open>EIO\<close> is
  ignored, any other errno ends in \<^verbatim>\<open>fail\<close>), and the terminal mode restored in the
  \<^verbatim>\<open>finally\<close> clause.
\<close>

fun interact_loop ::
  "nat \<Rightarrow> kernel \<Rightarrow> encoding \<Rightarrow> encoding \<Rightarrow> session \<Rightarrow> ((exc + unit) \<times> session) option" where
  "interact_loop 0 k remote loc s = None"
| "interact_loop (Suc fuel) k remote loc s =
     (case isalive k s of
        (Inl e, s1) \<Rightarrow> Some (Inl e, s1)
      | (Inr alive, s1) \<Rightarrow>
          if \<not> alive then Some (Inr (), s1)
          else (case interact_body fuel k remote loc s1 of
                  None \<Rightarrow> None
                | Some (Inl e, s2) \<Rightarrow> Some (Inl e, s2)
                | Some (Inr _, s2) \<Rightarrow> interact_loop fuel k remote loc s2))"

definition interact ::
  "nat \<Rightarrow> kernel \<Rightarrow> encoding \<Rightarrow> encoding \<Rightarrow> session \<Rightarrow> ((exc + unit) \<times> session) option" where
  "interact fuel k remote loc s =
     (case interact_loop fuel k remote loc (s\<lparr>trace := trace s @ [SetRaw]\<rparr>) of
        None \<Rightarrow> None
      | Some (r, s1) \<Rightarrow>
          Some (case r of
                  Inl (OSError errno) \<Rightarrow> if errno \<noteq> EIO then fail (strerror k errno) else Inr ()
                | _ \<Rightarrow> r,
                s1\<lparr>trace := trace s1 @ [Restore]\<rparr>))"

subsection \<open>Notions for the claims about the relay\<close>

text \<open>
  The bytes a trace writes to a descriptor, in order; a trace that does nothing but write
  to one descriptor; the number of bytes the \<open>i\<close>-th \<^verbatim>\<open>os.write\<close> is ready to take; a kernel
  on which no \<^verbatim>\<open>os.write\<close> fails.
\<close>

fun written :: "int \<Rightarrow> event list \<Rightarrow> byte list" where
  "written fd [] = []"
| "written fd (Write fd' bs # evs) = (if fd' = fd then bs else []) @ written fd evs"
| "written fd (_ # evs) = written fd evs"



definition writable :: "kernel \<Rightarrow> bool" where
  "writable k = (\<forall>i. \<exists>n. write_answer k i = Inr n)"


definition chatty_child :: kernel where
  "chatty_child =
     \<lparr>waitpid_answer = (\<lambda>i nohang. if i < 4 then WaitPending else WaitReaped (Exited 0)),
      kill_answer = (\<lambda>i. None), close_answer = (\<lambda>i. None),
      read_answer = (\<lambda>i. if i = 0 then Inr [0x61, 0x62] else Inr [0x63]),
      write_answer = (\<lambda>i. Inr 1), select_answer = (\<lambda>i. Inr [3]), strerror = (\<lambda>errno. [])\<rparr>"

definition split_child :: kernel where
  "split_child =
     \<lparr>waitpid_answer = (\<lambda>i nohang. if i < 4 then WaitPending else WaitReaped (Exited 0)),
      kill_answer = (\<lambda>i. None), close_answer = (\<lambda>i. None),
      read_answer = (\<lambda>i. if i = 0 then Inr [0x63, 0xC3] else Inr [0xA9]),
      write_answer = (\<lambda>i. Inr 1024), select_answer = (\<lambda>i. Inr [3]), strerror = (\<lambda>errno. [])\<rparr>"

section \<open>Properties\<close>

subsection \<open>Strings\<close>

lemma split_acc_length: "length (split_acc sep acc s) = Suc (count_list s sep)"
  by (induction s arbitrary: acc) auto

lemma split_acc_hd:
  "hd (split_acc sep acc s) = rev acc @ takeWhile (\<lambda>c. c \<noteq> sep) s"
  by (induction s arbitrary: acc) auto

lemma split_acc_no_sep:
  "count_list s sep = 0 \<Longrightarrow> split_acc sep acc s = [rev acc @ s]"
  by (induction s arbitrary: acc) (auto split: if_splits)

lemma split_acc_one_sep:
  "count_list s sep = 1 \<Longrightarrow>
   split_acc sep acc s =
     [rev acc @ takeWhile (\<lambda>c. c \<noteq> sep) s, drop 1 (dropWhile (\<lambda>c. c \<noteq> sep) s)]"
  by (induction s arbitrary: acc) (auto simp: split_acc_no_sep split: if_splits)

lemma split_dot_two_parts:
  "(\<exists>a b. split_dot val = [a, b]) \<longleftrightarrow> count_list val (CHR ''.'') = 1"
proof
  assume "\<exists>a b. split_dot val = [a, b]"
  then have "length (split_dot val) = 2" by auto
  then show "count_list val (CHR ''.'') = 1"
    by (simp add: split_dot_def split_acc_length)
next
  assume "count_list val (CHR ''.'') = 1"
  then show "\<exists>a b. split_dot val = [a, b]"
    by (simp add: split_dot_def split_acc_one_sep)
qed

lemma split_dot_one:
  "count_list val (CHR ''.'') = 1 \<Longrightarrow>
   split_dot val = [takeWhile (\<lambda>c. c \<noteq> CHR ''.'') val, after_dot val]"
  by (simp add: split_dot_def after_dot_def split_acc_one_sep)

lemma hd_split_dot: "hd (split_dot val) = takeWhile (\<lambda>c. c \<noteq> CHR ''.'') val"
  by (simp add: split_dot_def split_acc_hd)

lemma upper_utf8: "upper ''utf-8'' = ''UTF-8''"
  by code_simp

lemma upper_iso: "upper ''iso-8859-7'' = ''ISO-8859-7''"
  by code_simp

lemma upper_bogus: "upper ''bogus'' = ''BOGUS''"
  by code_simp

subsection \<open>Guessing the local encoding\<close>

lemma guess_step_qualifies:
  assumes "environ key = Some val"
  shows "(case split_dot val of
            [locale, encoding] \<Rightarrow> if known encoding then Some encoding else r
          | _ \<Rightarrow> r) =
         (if qualifies known environ key then Some (env_suffix environ key) else r)"
proof (cases "count_list val (CHR ''.'') = 1")
  case True
  then show ?thesis
    using assms by (simp add: split_dot_one qualifies_def env_suffix_def)
next
  case False
  then have "\<not> (\<exists>a b. split_dot val = [a, b])"
    by (simp add: split_dot_two_parts)
  then have "(case split_dot val of
            [locale, encoding] \<Rightarrow> if known encoding then Some encoding else r
          | _ \<Rightarrow> r) = r"
    by (auto split: list.splits)
  then show ?thesis
    using False assms by (simp add: qualifies_def)
qed

lemma guess_loop_find:
  "guess_loop known environ keys =
     map_option (env_suffix environ) (find (qualifies known environ) keys)"
proof (induction keys)
  case Nil
  then show ?case by simp
next
  case (Cons key keys)
  show ?case
  proof (cases "environ key")
    case None
    then show ?thesis using Cons by (simp add: qualifies_def)
  next
    case (Some val)
    show ?thesis
    proof (cases "val = []")
      case True
      then show ?thesis using Some Cons by (simp add: qualifies_def)
    next
      case False
      then show ?thesis
        using Some Cons
        by (simp add: guess_step_qualifies [where environ = environ and key = key and val = val])
    qed
  qed
qed

text \<open>
  Claim C10. When no local encoding is given, \<^verbatim>\<open>guessEncoding\<close> looks at \<^verbatim>\<open>LC_ALL\<close>,
  \<^verbatim>\<open>LC_CTYPE\<close> and \<^verbatim>\<open>LANG\<close> in that order and returns the part after the dot of the first
  variable that is set, has exactly one dot in its value and whose part after the dot
  names a known encoding; every other variable is skipped; when none qualifies the
  program exits with status 1 and a diagnostic.
\<close>

theorem guessEncoding_first_qualifying:
  "guessEncoding known environ =
     (case find (qualifies known environ) [''LC_ALL'', ''LC_CTYPE'', ''LANG''] of
        Some key \<Rightarrow> Inr (env_suffix environ key)
      | None \<Rightarrow>
          Inl (SystemExit 1
            ''unable to detect the local encoding. Specify it explicitly using the -l option.''))"
  unfolding guessEncoding_def guess_loop_find fail_def
  by (cases "find (qualifies known environ) [''LC_ALL'', ''LC_CTYPE'', ''LANG'']") simp_all

theorem guessEncoding_first_qualifying_witness:
  "guessEncoding (\<lambda>n. n = ''UTF-8'')
     [''LC_ALL'' \<mapsto> ''C'', ''LC_CTYPE'' \<mapsto> ''el_GR.bogus'', ''LANG'' \<mapsto> ''en_US.UTF-8'']
   = Inr ''UTF-8''"
  using guessEncoding_first_qualifying [of "\<lambda>n. n = ''UTF-8''"
     "[''LC_ALL'' \<mapsto> ''C'', ''LC_CTYPE'' \<mapsto> ''el_GR.bogus'', ''LANG'' \<mapsto> ''en_US.UTF-8'']"]
  by (simp add: qualifies_def env_suffix_def after_dot_def)

subsection \<open>Validation of the encodings\<close>

lemma unknown_remote_fails:
  assumes "\<not> opt_list opts" and "\<not> known (upper (str_of (opt_remote opts)))"
  shows "\<exists>message. TTYConv_init progname known environ opts cmdline
           = Inl (SystemExit 1 message)"
  using assms
  by (simp add: TTYConv_init_def validateCommandLineArguments_def fail_def Let_def)

lemma explicit_local_unchecked:
  assumes "\<not> opt_list opts" and "\<not> falsy (opt_remote opts)"
    and "known (upper (str_of (opt_remote opts)))" and "\<not> falsy (opt_local opts)"
  shows "validateCommandLineArguments progname known environ opts =
           Inr (opts\<lparr>opt_remote := Some (upper (str_of (opt_remote opts))),
                     opt_local := Some (upper (str_of (opt_local opts)))\<rparr>)"
  using assms
  by (simp add: validateCommandLineArguments_def Let_def str_of_def)

text \<open>
  Claim C5. An unknown encoding name is to stop the program before a child is spawned.
  For the remote encoding it does (\<open>unknown_remote_fails\<close>). A local encoding given with
  \<^verbatim>\<open>-l\<close> is upper-cased and then the remote encoding is looked up a second time, so the
  local name is never looked up: with \<^verbatim>\<open>-r utf-8 -l bogus\<close>, and \<^verbatim>\<open>UTF-8\<close> the only known
  encoding, validation succeeds and the constructor reaches \<^verbatim>\<open>spawn\<close> with the local
  encoding \<^verbatim>\<open>BOGUS\<close>.
\<close>

theorem explicit_local_not_validated:
  "TTYConv_init ''ttyconv'' (\<lambda>name. name = ''UTF-8'') Map.empty
     \<lparr>opt_remote = Some ''utf-8'', opt_local = Some ''bogus'', opt_nolocale = False,
      opt_verbose = False, opt_list = False\<rparr> []
   = Inr (\<lparr>opt_remote = Some ''UTF-8'', opt_local = Some ''BOGUS'', opt_nolocale = False,
           opt_verbose = False, opt_list = False\<rparr>, [''/bin/bash''])"
  by (simp add: TTYConv_init_def validateCommandLineArguments_def falsy_def str_of_def
      upper_utf8 upper_bogus)

subsection \<open>Rewriting the locale\<close>

lemma setLocale_fold:
  "foldl (\<lambda>env (key, val). env(key \<mapsto> f key val)) m items k =
     (case map_of (rev items) k of None \<Rightarrow> m k | Some v \<Rightarrow> Some (f k v))"
  by (induction items arbitrary: m) (auto split: option.splits)

lemma map_of_rev_distinct:
  "distinct (map fst xs) \<Longrightarrow> map_of (rev xs) k = map_of xs k"
proof (induction xs)
  case Nil
  then show ?case by simp
next
  case (Cons a xs)
  then have "map_of xs (fst a) = None"
    by (simp add: map_of_eq_None_iff)
  with Cons show ?case
    by (cases a) (auto simp: map_add_def split: option.splits)
qed

lemma setLocale_lookup:
  "distinct (map fst items) \<Longrightarrow>
   setLocale loc remote items k = map_option (setLocale_val loc remote k) (map_of items k)"
  by (simp add: setLocale_def setLocale_fold map_of_rev_distinct split: option.splits)

text \<open>
  Claim C6, as the code has it. \<^verbatim>\<open>setLocale\<close> builds a new mapping with the keys of the
  environment. An entry whose key is \<^verbatim>\<open>LANG\<close> or starts with \<^verbatim>\<open>LC_\<close> and whose value ends
  with a dot and the upper-cased local encoding gets the value: the part of the old value
  before its first dot, a dot, the upper-cased remote encoding. Every other entry keeps
  its value.
\<close>

theorem setLocale_rewrites:
  assumes "distinct (map fst items)"
  shows "dom (setLocale loc remote items) = fst ` set items \<and>
         (\<forall>(key, val) \<in> set items.
            setLocale loc remote items key =
              Some (if (key = ''LANG'' \<or> startswith key ''LC_'')
                       \<and> endswith val (''.'' @ upper loc)
                    then takeWhile (\<lambda>c. c \<noteq> CHR ''.'') val @ ''.'' @ upper remote
                    else val))"
proof
  show "dom (setLocale loc remote items) = fst ` set items"
    using assms by (auto simp: setLocale_lookup dom_def map_of_eq_None_iff)
next
  show "\<forall>(key, val) \<in> set items.
            setLocale loc remote items key =
              Some (if (key = ''LANG'' \<or> startswith key ''LC_'')
                       \<and> endswith val (''.'' @ upper loc)
                    then takeWhile (\<lambda>c. c \<noteq> CHR ''.'') val @ ''.'' @ upper remote
                    else val)"
    using assms by (auto simp: setLocale_lookup setLocale_val_def hd_split_dot)
qed

theorem setLocale_rewrites_witness:
  "setLocale ''utf-8'' ''iso-8859-7''
     [(''LANG'', ''el_GR.UTF-8''), (''LC_ALL'', ''C''), (''HOME'', ''/root.UTF-8'')] ''LANG''
     = Some ''el_GR.ISO-8859-7'' \<and>
   setLocale ''utf-8'' ''iso-8859-7''
     [(''LANG'', ''el_GR.UTF-8''), (''LC_ALL'', ''C''), (''HOME'', ''/root.UTF-8'')] ''HOME''
     = Some ''/root.UTF-8'' \<and>
   dom (setLocale ''utf-8'' ''iso-8859-7''
     [(''LANG'', ''el_GR.UTF-8''), (''LC_ALL'', ''C''), (''HOME'', ''/root.UTF-8'')])
     = {''LANG'', ''LC_ALL'', ''HOME''}"
  using setLocale_rewrites [of "[(''LANG'', ''el_GR.UTF-8''), (''LC_ALL'', ''C''), (''HOME'', ''/root.UTF-8'')]"
      "''utf-8''" "''iso-8859-7''"]
  by (simp add: upper_utf8 upper_iso startswith_def endswith_def)

text \<open>
  The claim as the specification states it (the suffix is replaced, what stands before it
  is kept) fails for a value with an earlier dot: the code keeps only the part before the
  first dot.
\<close>

theorem setLocale_suffix_counterexample:
  "endswith ''el_GR.x.UTF-8'' (''.'' @ upper ''utf-8'') \<and>
   setLocale ''utf-8'' ''iso-8859-7'' [(''LANG'', ''el_GR.x.UTF-8'')] ''LANG''
     = Some ''el_GR.ISO-8859-7'' \<and>
   suffix_replaced ''utf-8'' ''iso-8859-7'' ''el_GR.x.UTF-8'' = ''el_GR.x.ISO-8859-7''"
  by (simp add: setLocale_def setLocale_val_def hd_split_dot suffix_replaced_def
      upper_utf8 upper_iso startswith_def endswith_def)

subsection \<open>Termination of the child\<close>

lemma terminate_try_stages:
  "terminate_try k force =
     stage k SIGHUP (stage k SIGCONT (stage k SIGINT
       (if force then stage k SIGKILL (return False) else return False)))"
  unfolding terminate_try_def stage_def by (rule refl)

lemma reaped_trace: "trace (snd (reaped st s)) = trace s"
  by (cases st) (simp_all add: reaped_def fail_def)

lemma isalive_trace: "trace (snd (isalive k s)) = trace s"
  by (simp add: isalive_def os_waitpid_def Let_def reaped_trace
      split: waitpid_result.splits)

lemma isalive_trace': "isalive k s = (r, s') \<Longrightarrow> trace s' = trace s"
  using isalive_trace [of k s] by simp

lemma isalive_terminated: "terminated s \<Longrightarrow> isalive k s = (Inr False, s)"
  by (simp add: isalive_def)

lemma signals_sent_append: "signals_sent (a @ b) = signals_sent a @ signals_sent b"
  by (induction a rule: signals_sent.induct) simp_all

lemma paused_append:
  "paused_after_kill a \<Longrightarrow> paused_after_kill b \<Longrightarrow> paused_after_kill (a @ b)"
  by (induction a rule: paused_after_kill.induct) simp_all

lemma paused_append_sleep:
  "paused_after_kill (a @ [Sleep]) \<Longrightarrow> paused_after_kill b \<Longrightarrow>
   paused_after_kill (a @ Sleep # b)"
  using paused_append [of "a @ [Sleep]" b] by simp

lemma kill_cases:
  obtains (dead) s' where "kill k sig s = (Inr (), s')" "trace s' = trace s"
  | (sent) s' where "kill k sig s = (Inr (), s')" "trace s' = trace s @ [Kill sig]"
  | (kill_failed) errno s' where "kill k sig s = (Inl (OSError errno), s')"
      "trace s' = trace s @ [Kill sig]"
  | (raised) e s' where "kill k sig s = (Inl e, s')" "trace s' = trace s"
proof (cases "isalive k s")
  case (Pair r s1)
  then have tr: "trace s1 = trace s" by (rule isalive_trace')
  show ?thesis
  proof (cases r)
    case (Inl e)
    with Pair tr raised show ?thesis by (simp add: kill_def and_then_def)
  next
    case (Inr alive)
    show ?thesis
    proof (cases alive)
      case False
      with Pair Inr tr dead show ?thesis by (simp add: kill_def and_then_def return_def)
    next
      case True
      show ?thesis
      proof (cases "kill_answer k (n_kill s1)")
        case None
        with Pair Inr True tr sent show ?thesis
          by (simp add: kill_def and_then_def os_kill_def)
      next
        case (Some errno)
        with Pair Inr True tr kill_failed show ?thesis
          by (simp add: kill_def and_then_def os_kill_def)
      qed
    qed
  qed
qed

lemma stage_after_kill:
  assumes cont: "traced sigs cont"
    and k: "kill k sig s = (Inr (), s')"
    and tr: "trace s' = trace s @ pre"
    and pre: "pre = [] \<or> pre = [Kill sig]"
  shows "\<exists>evs. trace (snd (stage k sig cont s)) = trace s @ evs \<and>
           subseq (signals_sent evs) (sig # sigs) \<and>
           (paused_after_kill evs \<or>
            ((\<exists>errno. fst (stage k sig cont s) = Inl (OSError errno)) \<and>
             paused_after_kill (evs @ [Sleep])))"
proof -
  define s2 where "s2 = s'\<lparr>trace := trace s' @ [Sleep]\<rparr>"
  have pp: "paused_after_kill (pre @ [Sleep])"
    using pre by auto
  have sub0: "subseq (signals_sent (pre @ [Sleep])) (sig # sigs)"
    using pre by auto
  obtain r s3 where alive: "isalive k s2 = (r, s3)"
    by (cases "isalive k s2") auto
  then have tr3: "trace s3 = trace s @ pre @ [Sleep]"
    using isalive_trace' [OF alive] tr by (simp add: s2_def)
  have st: "stage k sig cont s =
      (case r of Inl e \<Rightarrow> (Inl e, s3)
       | Inr a \<Rightarrow> if \<not> a then (Inr True, s3) else cont s3)"
    using k alive
    by (simp add: stage_def and_then_def sleep_def return_def s2_def split: sum.splits)
  show ?thesis
  proof (cases "r = Inr True")
    case False
    then have "snd (stage k sig cont s) = s3"
      using st by (cases r) auto
    then show ?thesis
      using tr3 pp sub0 by (intro exI [of _ "pre @ [Sleep]"]) simp
  next
    case True
    then have st': "stage k sig cont s = cont s3"
      using st by simp
    from cont obtain evs where
      e1: "trace (snd (cont s3)) = trace s3 @ evs"
      and e2: "subseq (signals_sent evs) sigs"
      and e3: "paused_after_kill evs \<or>
         ((\<exists>errno. fst (cont s3) = Inl (OSError errno)) \<and> paused_after_kill (evs @ [Sleep]))"
      unfolding traced_def by blast
    have sub: "subseq (signals_sent (pre @ [Sleep] @ evs)) (sig # sigs)"
      using pre e2 by (auto simp: signals_sent_append)
    have pa: "paused_after_kill evs \<Longrightarrow> paused_after_kill (pre @ [Sleep] @ evs)"
      using paused_append [OF pp] by simp
    have pb: "paused_after_kill (evs @ [Sleep]) \<Longrightarrow>
        paused_after_kill ((pre @ [Sleep] @ evs) @ [Sleep])"
      using paused_append [OF pp, of "evs @ [Sleep]"] by simp
    show ?thesis
      using e1 e3 sub pa pb tr3 unfolding st'
      by (intro exI [of _ "pre @ [Sleep] @ evs"]) auto
  qed
qed

lemma traced_stage:
  assumes "traced sigs cont"
  shows "traced (sig # sigs) (stage k sig cont)"
  unfolding traced_def
proof
  fix s
  show "\<exists>evs. trace (snd (stage k sig cont s)) = trace s @ evs \<and>
           subseq (signals_sent evs) (sig # sigs) \<and>
           (paused_after_kill evs \<or>
            ((\<exists>errno. fst (stage k sig cont s) = Inl (OSError errno)) \<and>
             paused_after_kill (evs @ [Sleep])))"
  proof (cases rule: kill_cases [of k sig s])
    case (dead s')
    then show ?thesis
      using stage_after_kill [OF assms, of k sig s s' "[]"] by simp
  next
    case (sent s')
    then show ?thesis
      using stage_after_kill [OF assms, of k sig s s' "[Kill sig]"] by simp
  next
    case (kill_failed errno s')
    then show ?thesis
      by (intro exI [of _ "[Kill sig]"]) (simp add: stage_def and_then_def)
  next
    case (raised e s')
    then show ?thesis
      by (intro exI [of _ "[]"]) (simp add: stage_def and_then_def)
  qed
qed

lemma traced_return: "traced sigs (return x)"
  by (simp add: traced_def return_def)

lemma traced_terminate_try: "traced (escalation force) (terminate_try k force)"
  unfolding terminate_try_stages escalation_def
  by (cases force) (simp_all add: traced_stage traced_return)

lemma terminate_traced:
  "\<exists>evs. trace (snd (terminate k force s)) = trace s @ evs \<and>
         subseq (signals_sent evs) (escalation force) \<and> paused_after_kill evs"
proof -
  obtain r s1 where a: "isalive k s = (r, s1)"
    by (cases "isalive k s") auto
  have tr1: "trace s1 = trace s" using isalive_trace' [OF a] .
  show ?thesis
  proof (cases "r = Inr True")
    case False
    then have "snd (terminate k force s) = s1"
      using a by (cases r) (auto simp: terminate_def and_then_def return_def)
    then show ?thesis using tr1 by (intro exI [of _ "[]"]) simp
  next
    case True
    from traced_terminate_try [of force k] obtain evs where
      e1: "trace (snd (terminate_try k force s1)) = trace s1 @ evs"
      and e2: "subseq (signals_sent evs) (escalation force)"
      and e3: "paused_after_kill evs \<or>
         ((\<exists>errno. fst (terminate_try k force s1) = Inl (OSError errno))
           \<and> paused_after_kill (evs @ [Sleep]))"
      unfolding traced_def by blast
    obtain r2 s2 where t: "terminate_try k force s1 = (r2, s2)"
      by (cases "terminate_try k force s1") auto
    show ?thesis
    proof (cases "\<exists>errno. r2 = Inl (OSError errno)")
      case False
      then have "terminate k force s = (r2, s2)"
        using a True t
        by (auto simp: terminate_def and_then_def split: sum.splits exc.splits)
      then show ?thesis
        using e1 e2 e3 t tr1 False by (intro exI [of _ evs]) auto
    next
      case True
      then obtain errno where r2: "r2 = Inl (OSError errno)" by blast
      define s3 where "s3 = s2\<lparr>trace := trace s2 @ [Sleep]\<rparr>"
      have "snd (terminate k force s) = snd (isalive k s3)"
        using a \<open>r = Inr True\<close> t r2
        by (auto simp: terminate_def and_then_def sleep_def return_def s3_def
            split: sum.splits prod.splits)
      then have "trace (snd (terminate k force s)) = trace s @ evs @ [Sleep]"
        using isalive_trace [of k s3] e1 t tr1 by (simp add: s3_def)
      moreover have "paused_after_kill (evs @ [Sleep])"
        using e3 paused_append [of evs "[Sleep]"] by auto
      ultimately show ?thesis
        using e2 by (intro exI [of _ "evs @ [Sleep]"]) (simp add: signals_sent_append)
    qed
  qed
qed

lemma isalive_exact:
  assumes "well_behaved k" and "\<not> terminated s"
  shows "\<exists>s'. isalive k s = (Inr (looks_alive k (\<not> flag_eof s) (n_waitpid s)), s') \<and>
           trace s' = trace s \<and> flag_eof s' = flag_eof s \<and> n_write s' = n_write s \<and>
           (if looks_alive k (\<not> flag_eof s) (n_waitpid s)
            then \<not> terminated s' \<and> n_waitpid s' = Suc (Suc (n_waitpid s))
            else terminated s')"
proof -
  have w: "\<And>i nh. waitpid_answer k i nh = WaitPending \<or>
         (\<exists>c. waitpid_answer k i nh = WaitReaped (Exited c)) \<or>
         (\<exists>c. waitpid_answer k i nh = WaitReaped (Signaled c))"
    using assms(1) unfolding well_behaved_def by blast
  show ?thesis
    using assms(2) w [of "n_waitpid s" "\<not> flag_eof s"] w [of "Suc (n_waitpid s)" "\<not> flag_eof s"]
    by (auto simp: isalive_def os_waitpid_def reaped_def Let_def looks_alive_def)
qed

lemma checks_passed_two:
  "checks_passed k nh n (2 * length (sig # sigs)) =
     (if looks_alive k nh n
      then if looks_alive k nh (Suc (Suc n))
           then Suc (Suc (checks_passed k nh (Suc (Suc (Suc (Suc n)))) (2 * length sigs)))
           else Suc 0
      else 0)"
  by simp

lemma decides_stage:
  assumes wb: "well_behaved k" and cont: "decides k sigs cont"
  shows "decides k (sig # sigs) (stage k sig cont)"
  unfolding decides_def
proof (intro allI impI)
  fix s :: session
  assume nt: "\<not> terminated s"
  let ?nh = "\<not> flag_eof s"
  let ?n = "n_waitpid s"
  let ?j = "checks_passed k ?nh ?n (2 * length (sig # sigs))"
  obtain s1 where i1: "isalive k s = (Inr (looks_alive k ?nh ?n), s1)"
    and t1: "trace s1 = trace s" and f1: "flag_eof s1 = flag_eof s"
    and c1: "if looks_alive k ?nh ?n
             then \<not> terminated s1 \<and> n_waitpid s1 = Suc (Suc ?n) else terminated s1"
    using isalive_exact [OF wb nt] by blast
  show "\<exists>evs s'. stage k sig cont s = (Inr (?j < 2 * length (sig # sigs)), s') \<and>
          trace s' = trace s @ evs \<and> signals_sent evs = take (Suc ?j div 2) (sig # sigs)"
  proof (cases "looks_alive k ?nh ?n")
    case False
    then have j: "?j = 0"
      unfolding checks_passed_two by simp
    have "stage k sig cont s = (Inr True, s1\<lparr>trace := trace s1 @ [Sleep]\<rparr>)"
      using i1 False c1
      by (simp add: stage_def kill_def and_then_def return_def sleep_def isalive_terminated)
    then show ?thesis
      unfolding j using t1 by (intro exI [of _ "[Sleep]"]) simp
  next
    case True
    define s3 where
      "s3 = s1\<lparr>n_kill := Suc (n_kill s1), trace := trace s1 @ [Kill sig, Sleep]\<rparr>"
    have ka: "kill_answer k (n_kill s1) = None"
      using wb unfolding well_behaved_def by blast
    have k3: "and_then (kill k sig) (\<lambda>_. sleep) s = (Inr (), s3)"
      using i1 True ka
      by (simp add: kill_def and_then_def os_kill_def sleep_def s3_def)
    have st: "stage k sig cont s =
        (case isalive k s3 of
           (Inl e, s4) \<Rightarrow> (Inl e, s4)
         | (Inr alive, s4) \<Rightarrow> if \<not> alive then (Inr True, s4) else cont s4)"
      using k3
      by (simp add: stage_def and_then_def return_def split: prod.splits sum.splits)
    have nt3: "\<not> terminated s3" and n3: "n_waitpid s3 = Suc (Suc ?n)"
      and f3: "flag_eof s3 = flag_eof s" and t3: "trace s3 = trace s @ [Kill sig, Sleep]"
      using c1 True f1 t1 by (simp_all add: s3_def)
    obtain s4 where i3: "isalive k s3 = (Inr (looks_alive k ?nh (Suc (Suc ?n))), s4)"
      and t4: "trace s4 = trace s3" and f4: "flag_eof s4 = flag_eof s"
      and c4: "if looks_alive k ?nh (Suc (Suc ?n))
               then \<not> terminated s4 \<and> n_waitpid s4 = Suc (Suc (Suc (Suc ?n)))
               else terminated s4"
      using isalive_exact [OF wb nt3] unfolding n3 f3 by auto
    show ?thesis
    proof (cases "looks_alive k ?nh (Suc (Suc ?n))")
      case False
      then have j: "?j = Suc 0"
        unfolding checks_passed_two using True by simp
      have "stage k sig cont s = (Inr True, s4)"
        using st i3 False by simp
      then show ?thesis
        unfolding j using t4 t3 by (intro exI [of _ "[Kill sig, Sleep]"]) simp
    next
      case alive: True
      let ?j' = "checks_passed k ?nh (Suc (Suc (Suc (Suc ?n)))) (2 * length sigs)"
      have j: "?j = Suc (Suc ?j')"
        unfolding checks_passed_two using True alive by simp
      from cont c4 alive f4 obtain evs s' where
        r: "cont s4 = (Inr (?j' < 2 * length sigs), s')" "trace s' = trace s4 @ evs"
        "signals_sent evs = take (Suc ?j' div 2) sigs"
        unfolding decides_def by fastforce
      have "stage k sig cont s = (Inr (?j' < 2 * length sigs), s')"
        using st i3 alive r(1) by simp
      then show ?thesis
        unfolding j using r(2,3) t4 t3
        by (intro exI [of _ "[Kill sig, Sleep] @ evs"]) simp
    qed
  qed
qed

lemma decides_return_False: "decides k [] (return False)"
  by (simp add: decides_def return_def)

lemma decides_terminate_try:
  "well_behaved k \<Longrightarrow> decides k (escalation force) (terminate_try k force)"
  unfolding terminate_try_stages escalation_def
  by (cases force) (simp_all add: decides_stage decides_return_False)

lemma terminate_decided:
  assumes wb: "well_behaved k" and nt: "\<not> terminated s"
  shows "\<exists>evs s'. terminate k force s =
             (Inr (checks_passed k (\<not> flag_eof s) (n_waitpid s) (checks force) < checks force),
              s') \<and>
           trace s' = trace s @ evs \<and>
           signals_sent evs =
             take (checks_passed k (\<not> flag_eof s) (n_waitpid s) (checks force) div 2)
               (escalation force)"
proof -
  let ?nh = "\<not> flag_eof s"
  let ?n = "n_waitpid s"
  let ?m = "2 * length (escalation force)"
  obtain s1 where i1: "isalive k s = (Inr (looks_alive k ?nh ?n), s1)"
    and t1: "trace s1 = trace s" and f1: "flag_eof s1 = flag_eof s"
    and c1: "if looks_alive k ?nh ?n
             then \<not> terminated s1 \<and> n_waitpid s1 = Suc (Suc ?n) else terminated s1"
    using isalive_exact [OF wb nt] by blast
  show ?thesis
  proof (cases "looks_alive k ?nh ?n")
    case False
    then have "terminate k force s = (Inr True, s1)"
      using i1 by (simp add: terminate_def and_then_def return_def)
    then show ?thesis
      using False t1 by (intro exI [of _ "[]"]) (simp add: checks_def)
  next
    case True
    let ?j = "checks_passed k ?nh (Suc (Suc ?n)) ?m"
    from decides_terminate_try [OF wb, of force] c1 True f1 obtain evs s' where
      r: "terminate_try k force s1 = (Inr (?j < ?m), s')" "trace s' = trace s1 @ evs"
      "signals_sent evs = take (Suc ?j div 2) (escalation force)"
      unfolding decides_def by fastforce
    have "terminate k force s = (Inr (?j < ?m), s')"
      using i1 True r(1) by (simp add: terminate_def and_then_def)
    then show ?thesis
      using True r(2,3) t1 by (intro exI [of _ evs]) (simp add: checks_def)
  qed
qed

lemma terminate_dead_at_entry:
  assumes "fst (isalive k s) = Inr False"
  shows "terminate k force s = (Inr True, snd (isalive k s))"
  using assms by (cases "isalive k s") (simp add: terminate_def and_then_def return_def)

text \<open>
  Claim C3, as the code has it. If the first liveness check of \<^verbatim>\<open>terminate(force)\<close> finds
  the child dead, the result is true and nothing is sent. In every run the signals sent
  are, in this order, among SIGHUP, SIGCONT, SIGINT and, only with \<open>force\<close>, SIGKILL, and
  every signal sent is followed by a sleep. On a kernel where no \<^verbatim>\<open>os.kill\<close> and no
  \<^verbatim>\<open>os.waitpid\<close> fails and no child is reported stopped, the answers of \<^verbatim>\<open>os.waitpid\<close>
  decide the run: there are at most \<open>checks force\<close> liveness checks, one at entry and two
  for each signal (one before it is sent, one after the sleep); the result is true exactly
  when one of them finds the child gone, and the signals sent are those of the escalation
  that come before that check. So the result is false only when every check found the
  child alive, after all signals were sent: after SIGKILL with \<open>force\<close>, after SIGINT
  without.
\<close>

theorem terminate_escalation:
  "(fst (isalive k s) = Inr False \<longrightarrow>
      terminate k force s = (Inr True, snd (isalive k s)) \<and>
      trace (snd (terminate k force s)) = trace s) \<and>
   (\<exists>evs. trace (snd (terminate k force s)) = trace s @ evs \<and>
      subseq (signals_sent evs) (escalation force) \<and> paused_after_kill evs \<and>
      (well_behaved k \<and> \<not> terminated s \<longrightarrow>
         fst (terminate k force s) =
           Inr (checks_passed k (\<not> flag_eof s) (n_waitpid s) (checks force) < checks force) \<and>
         signals_sent evs =
           take (checks_passed k (\<not> flag_eof s) (n_waitpid s) (checks force) div 2)
             (escalation force)))"
proof (intro conjI impI)
  assume "fst (isalive k s) = Inr False"
  then show "terminate k force s = (Inr True, snd (isalive k s))"
    by (rule terminate_dead_at_entry)
  then show "trace (snd (terminate k force s)) = trace s"
    by (simp add: isalive_trace)
next
  obtain evs where e: "trace (snd (terminate k force s)) = trace s @ evs"
    "subseq (signals_sent evs) (escalation force)" "paused_after_kill evs"
    using terminate_traced [of k force s] by blast
  have "well_behaved k \<and> \<not> terminated s \<longrightarrow>
         fst (terminate k force s) =
           Inr (checks_passed k (\<not> flag_eof s) (n_waitpid s) (checks force) < checks force) \<and>
         signals_sent evs =
           take (checks_passed k (\<not> flag_eof s) (n_waitpid s) (checks force) div 2)
             (escalation force)"
  proof
    assume "well_behaved k \<and> \<not> terminated s"
    then obtain evs' s' where
      "terminate k force s =
         (Inr (checks_passed k (\<not> flag_eof s) (n_waitpid s) (checks force) < checks force), s')"
      "trace s' = trace s @ evs'"
      "signals_sent evs' =
         take (checks_passed k (\<not> flag_eof s) (n_waitpid s) (checks force) div 2)
           (escalation force)"
      using terminate_decided [of k s force] by blast
    with e(1) show "fst (terminate k force s) =
           Inr (checks_passed k (\<not> flag_eof s) (n_waitpid s) (checks force) < checks force) \<and>
         signals_sent evs =
           take (checks_passed k (\<not> flag_eof s) (n_waitpid s) (checks force) div 2)
             (escalation force)"
      by simp
  qed
  with e show "\<exists>evs. trace (snd (terminate k force s)) = trace s @ evs \<and>
      subseq (signals_sent evs) (escalation force) \<and> paused_after_kill evs \<and>
      (well_behaved k \<and> \<not> terminated s \<longrightarrow>
         fst (terminate k force s) =
           Inr (checks_passed k (\<not> flag_eof s) (n_waitpid s) (checks force) < checks force) \<and>
         signals_sent evs =
           take (checks_passed k (\<not> flag_eof s) (n_waitpid s) (checks force) div 2)
             (escalation force))"
    by blast
qed

lemmas run_defs =
  terminate_def terminate_try_def kill_def isalive_def os_waitpid_def os_kill_def os_close_def
  sleep_def reaped_def and_then_def return_def close_def fresh_session_def Let_def

lemma killable_child_run:
  "terminate killable_child True (fresh_session 4242 3) =
     (Inr True,
      (fresh_session 4242 3)\<lparr>terminated := True, status := Some (Signaled 9),
         n_waitpid := 17, n_kill := 4,
         trace := [Kill SIGHUP, Sleep, Kill SIGCONT, Sleep, Kill SIGINT, Sleep,
                   Kill SIGKILL, Sleep]\<rparr>)"
  by (simp add: run_defs killable_child_def)

lemma interruptible_child_run:
  "terminate interruptible_child False (fresh_session 4242 3) =
     (Inr True,
      (fresh_session 4242 3)\<lparr>terminated := True, status := Some (Signaled 2),
         n_waitpid := 13, n_kill := 3,
         trace := [Kill SIGHUP, Sleep, Kill SIGCONT, Sleep, Kill SIGINT, Sleep]\<rparr>)"
  by (simp add: run_defs interruptible_child_def)

lemma stubborn_child_run:
  "terminate stubborn_child False (fresh_session 4242 3) =
     (Inr False,
      (fresh_session 4242 3)\<lparr>n_waitpid := 14, n_kill := 3,
         trace := [Kill SIGHUP, Sleep, Kill SIGCONT, Sleep, Kill SIGINT, Sleep]\<rparr>)"
  by (simp add: run_defs stubborn_child_def)

lemma well_behaved_interruptible: "well_behaved interruptible_child"
  by (simp add: well_behaved_def interruptible_child_def)

lemma checks_False: "checks False = 7"
  by code_simp

lemma interruptible_child_checks: "checks_passed interruptible_child True 0 7 = 6"
  by code_simp

theorem terminate_escalation_witness:
  "well_behaved interruptible_child \<and> \<not> terminated (fresh_session 4242 3) \<and>
   checks_passed interruptible_child (\<not> flag_eof (fresh_session 4242 3))
     (n_waitpid (fresh_session 4242 3)) (checks False) = 6 \<and>
   checks False = 7 \<and>
   fst (terminate interruptible_child False (fresh_session 4242 3)) = Inr True \<and>
   trace (snd (terminate interruptible_child False (fresh_session 4242 3))) =
     [Kill SIGHUP, Sleep, Kill SIGCONT, Sleep, Kill SIGINT, Sleep] \<and>
   n_waitpid (snd (terminate interruptible_child False (fresh_session 4242 3))) = 13 \<and>
   fst (isalive interruptible_child ((fresh_session 4242 3)\<lparr>terminated := True\<rparr>))
     = Inr False \<and>
   terminate interruptible_child False ((fresh_session 4242 3)\<lparr>terminated := True\<rparr>) =
     (Inr True, (fresh_session 4242 3)\<lparr>terminated := True\<rparr>)"
proof -
  have dead: "terminated ((fresh_session 4242 3)\<lparr>terminated := True\<rparr>)"
    by simp
  have fresh: "\<not> terminated (fresh_session 4242 3)" "\<not> flag_eof (fresh_session 4242 3)"
    "n_waitpid (fresh_session 4242 3) = 0"
    by (simp_all add: fresh_session_def)
  show ?thesis
    using terminate_escalation [of interruptible_child "fresh_session 4242 3" False]
      terminate_escalation
        [of interruptible_child "(fresh_session 4242 3)\<lparr>terminated := True\<rparr>" False]
      well_behaved_interruptible
    by (simp add: interruptible_child_run isalive_terminated [OF dead] fresh checks_False
        interruptible_child_checks)
qed

text \<open>
  The claim as stated lets \<^verbatim>\<open>terminate\<close> return false only after the unconditional kill.
  Without \<open>force\<close>, a child that ignores the three signals makes it return false, and
  SIGKILL was never sent.
\<close>

theorem terminate_false_without_kill:
  "fst (terminate stubborn_child False (fresh_session 4242 3)) = Inr False \<and>
   signals_sent (trace (snd (terminate stubborn_child False (fresh_session 4242 3))))
     = [SIGHUP, SIGCONT, SIGINT]"
  by (simp add: stubborn_child_run)

subsection \<open>Closing the session\<close>

lemma close_when_closed: "closed s \<Longrightarrow> close k force s = (Inr (), s)"
  by (simp add: close_def)

lemma close_success:
  assumes "\<not> closed s" and "fst (close k force s) = Inr ()"
  shows "closed (snd (close k force s)) \<and> child_fd (snd (close k force s)) = - 1"
  using assms
  by (auto simp: close_def and_then_def return_def split: prod.splits sum.splits if_splits)

text \<open>
  Claim C7. After a first \<^verbatim>\<open>close()\<close> that returned without an exception, the closed flag
  is set and the descriptor field is \<open>-1\<close>, and every later \<^verbatim>\<open>close()\<close>, whatever the kernel
  and the argument, returns without an exception and leaves the session unchanged: its
  trace gets no further \<^verbatim>\<open>os.close\<close>.
\<close>

theorem close_idempotent:
  assumes "\<not> closed s" and "fst (close k force s) = Inr ()"
  shows "closed (snd (close k force s)) \<and> child_fd (snd (close k force s)) = - 1 \<and>
         (\<forall>k' force'. close k' force' (snd (close k force s)) = (Inr (), snd (close k force s)))"
  using close_success [OF assms] by (simp add: close_when_closed)

lemma hangup_child_close:
  "close hangup_child True (fresh_session 4242 3) =
     (Inr (), (fresh_session 4242 3)\<lparr>terminated := True, status := Some (Signaled 1),
         child_fd := - 1, closed := True, n_waitpid := 1, n_close := 1,
         trace := [Close 3, Sleep]\<rparr>)"
  by (simp add: run_defs hangup_child_def)

theorem close_idempotent_witness:
  "\<not> closed (fresh_session 4242 3) \<and>
   fst (close hangup_child True (fresh_session 4242 3)) = Inr () \<and>
   child_fd (snd (close hangup_child True (fresh_session 4242 3))) = - 1 \<and>
   trace (snd (close stubborn_child False (snd (close hangup_child True (fresh_session 4242 3)))))
     = [Close 3, Sleep]"
proof -
  have open_at_start: "\<not> closed (fresh_session 4242 3)"
    by (simp add: fresh_session_def)
  have first: "fst (close hangup_child True (fresh_session 4242 3)) = Inr ()"
    by (simp add: hangup_child_close)
  show ?thesis
    using close_idempotent [OF open_at_start first] open_at_start
    by (simp add: hangup_child_close)
qed

subsection \<open>Decoding in chunks and round trips\<close>

lemma replace_decode_Nil: "replace_decode enc final [] = ([], [])"
  by (simp add: replace_decode.simps)

lemma replace_decode_append:
  assumes inc: "incremental enc"
  shows "replace_decode enc False (xs @ ys) =
           (case replace_decode enc False xs of
              (chars1, rest1) \<Rightarrow>
                (case replace_decode enc False (rest1 @ ys) of
                   (chars2, rest2) \<Rightarrow> (chars1 @ chars2, rest2)))"
proof (induction xs rule: length_induct)
  case (1 xs)
  show ?case
  proof (cases "xs = []")
    case True
    then show ?thesis by (simp add: replace_decode_Nil)
  next
    case False
    show ?thesis
    proof (cases "dec_head enc xs")
      case Truncated
      then have "replace_decode enc False xs = ([], xs)"
        using False by (simp add: replace_decode.simps [of enc False xs])
      then show ?thesis by simp
    next
      case (Decoded c n)
      with inc have n: "1 \<le> n" "n \<le> length xs"
        and ext: "dec_head enc (xs @ ys) = Decoded c n"
        unfolding incremental_def by blast+
      have shorter: "length (drop n xs) < length xs"
        using n False by simp
      have l: "replace_decode enc False (xs @ ys) =
          (case replace_decode enc False (drop n xs @ ys) of
             (chars, rest) \<Rightarrow> (c # chars, rest))"
        using False ext n by (simp add: replace_decode.simps [of enc False "xs @ ys"] max_def)
      have r: "replace_decode enc False xs =
          (case replace_decode enc False (drop n xs) of
             (chars, rest) \<Rightarrow> (c # chars, rest))"
        using False Decoded n by (simp add: replace_decode.simps [of enc False xs] max_def)
      show ?thesis
        using 1 shorter unfolding l r by (simp split: prod.splits)
    next
      case (Malformed n)
      with inc have n: "1 \<le> n" "n \<le> length xs"
        and ext: "dec_head enc (xs @ ys) = Malformed n"
        unfolding incremental_def by blast+
      have shorter: "length (drop n xs) < length xs"
        using n False by simp
      have l: "replace_decode enc False (xs @ ys) =
          (case replace_decode enc False (drop n xs @ ys) of
             (chars, rest) \<Rightarrow> (0xFFFD # chars, rest))"
        using False ext n by (simp add: replace_decode.simps [of enc False "xs @ ys"] max_def)
      have r: "replace_decode enc False xs =
          (case replace_decode enc False (drop n xs) of
             (chars, rest) \<Rightarrow> (0xFFFD # chars, rest))"
        using False Malformed n by (simp add: replace_decode.simps [of enc False xs] max_def)
      show ?thesis
        using 1 shorter unfolding l r by (simp split: prod.splits)
    qed
  qed
qed

text \<open>
  The incremental decoder of \<^verbatim>\<open>ttyconv2.py\<close> gives, for any bytes cut at any offset, the
  same text and the same carry in one call as in two calls with the carry handed from the
  first to the second, for every encoding whose decoder is fit for incremental use.
\<close>

lemma decoder_decode_chunks:
  assumes "incremental enc"
  shows "decoder_decode enc buffer (a @ b) =
           (case decoder_decode enc buffer a of
              (chars1, buffer1) \<Rightarrow>
                (case decoder_decode enc buffer1 b of
                   (chars2, buffer2) \<Rightarrow> (chars1 @ chars2, buffer2)))"
  unfolding decoder_decode_def
  using replace_decode_append [OF assms, of "buffer @ a" b] by simp


lemma utf8_head_extend:
  "(utf8_head xs = Decoded c n \<longrightarrow>
      1 \<le> n \<and> n \<le> length xs \<and> utf8_head (xs @ ext) = Decoded c n) \<and>
   (utf8_head xs = Malformed n \<longrightarrow>
      1 \<le> n \<and> n \<le> length xs \<and> utf8_head (xs @ ext) = Malformed n)"
  unfolding utf8_head_def
  by (auto split: list.splits if_splits)

lemma incremental_utf_8: "incremental utf_8"
  unfolding incremental_def
proof (intro allI)
  fix bs ext :: "byte list"
  show "(\<forall>c n. dec_head utf_8 bs = Decoded c n \<longrightarrow>
           1 \<le> n \<and> n \<le> length bs \<and> dec_head utf_8 (bs @ ext) = Decoded c n) \<and>
        (\<forall>n. dec_head utf_8 bs = Malformed n \<longrightarrow>
           1 \<le> n \<and> n \<le> length bs \<and> dec_head utf_8 (bs @ ext) = Malformed n)"
    using utf8_head_extend [of "map unat bs" _ _ "map unat ext"]
    by (simp add: utf_8_def)
qed
















lemma incremental_ascii: "incremental ascii"
  by (auto simp: incremental_def ascii_def split: list.splits if_splits)

lemma incremental_latin_1: "incremental latin_1"
  by (auto simp: incremental_def latin_1_def split: list.splits)




lemma cafe_decoded:
  "lenientDecode [0x63, 0x61, 0x66, 0xC3, 0xA9, 0xE2, 0x82, 0xAC] utf_8 [0x3F]
     = [0x63, 0x61, 0x66, 0xE9, 0x20AC]"
  by (simp add: lenientDecode_def replace_decode.simps utf_8_def utf8_head_def continuation_def)



lemma split_first:
  "decoder_decode utf_8 [] [0x63, 0xC3] = ([0x63], [0xC3])"
  by (simp add: decoder_decode_def replace_decode.simps utf_8_def utf8_head_def continuation_def)

lemma split_second:
  "decoder_decode utf_8 [0xC3] [0xA9, 0x21] = ([0xE9, 0x21], [])"
  by (simp add: decoder_decode_def replace_decode.simps utf_8_def utf8_head_def continuation_def)

lemma incremental_utf_8_split:
  "decoder_decode utf_8 [] ([0x63, 0xC3] @ [0xA9, 0x21]) = ([0x63, 0xE9, 0x21], [])"
  using decoder_decode_chunks [OF incremental_utf_8, of "[]" "[0x63, 0xC3]" "[0xA9, 0x21]"]
  by (simp add: split_first split_second)

text \<open>
  The handler of \<^verbatim>\<open>ttyconv2.py\<close> keeps the decoder's carry, so the carry after two reads is
  the carry after one read of the same bytes. On a character cut in two by the reads, the
  first byte of U+00E9 is held back, and the character is written when the second byte has
  come.
\<close>

lemma handle_output_from_system_buffer:
  "fst (handle_output_from_system registry remote loc buffer data)
     = snd (decoder_decode remote buffer data)"
  by (simp add: handle_output_from_system_def split: prod.splits)

lemma handle_output_from_system_chunks:
  assumes "incremental remote"
  shows "fst (handle_output_from_system registry remote loc buffer (a @ b)) =
           fst (handle_output_from_system registry remote loc
                  (fst (handle_output_from_system registry remote loc buffer a)) b)"
  unfolding handle_output_from_system_buffer
  using decoder_decode_chunks [OF assms, of buffer a b]
  by (simp split: prod.splits)

lemma handle_output_from_system_carries:
  "handle_output_from_system registry utf_8 (CodecInfo utf_8) [] [0x63, 0xC3]
     = ([0xC3], Inr (Some [0x63])) \<and>
   handle_output_from_system registry utf_8 (CodecInfo utf_8) [0xC3] [0xA9]
     = ([], Inr (Some [0xC3, 0xA9]))"
  by (simp add: handle_output_from_system_def local_encode_def decoder_decode_def
      replace_decode.simps utf_8_def utf8_head_def utf8_bytes_def continuation_def)

lemma lenientDecode_split:
  "lenientDecode ([0x63, 0xC3] @ [0xA9]) utf_8 [0x3F] = [0x63, 0xE9] \<and>
   lenientDecode [0x63, 0xC3] utf_8 [0x3F] @ lenientDecode [0xA9] utf_8 [0x3F]
     = [0x63, 0xFFFD, 0xFFFD]"
  by (simp add: lenientDecode_def replace_decode.simps utf_8_def utf8_head_def
      continuation_def)

lemma remoteToLocal_whole:
  "remoteToLocal utf_8 utf_8 ([0x63, 0xC3] @ [0xA9]) = Inr [0x63, 0xC3, 0xA9]"
  by (simp add: remoteToLocal_def lenientEncode_def lenientDecode_def replace_decode.simps
      utf_8_def utf8_bytes_def utf8_head_def continuation_def)

lemma remoteToLocal_first: "remoteToLocal utf_8 utf_8 [0x63, 0xC3] = Inr [0x63, 0xEF, 0xBF, 0xBD]"
  by (simp add: remoteToLocal_def lenientEncode_def lenientDecode_def replace_decode.simps
      utf_8_def utf8_bytes_def utf8_head_def continuation_def)

lemma remoteToLocal_second: "remoteToLocal utf_8 utf_8 [0xA9] = Inr [0xEF, 0xBF, 0xBD]"
  by (simp add: remoteToLocal_def lenientEncode_def lenientDecode_def replace_decode.simps
      utf_8_def utf8_bytes_def utf8_head_def continuation_def)

lemma x_lenientCodec_single_error:
  assumes whole: "codec (p @ bad @ s) = Inl (length p, length p + length bad)"
    and pre: "codec p = Inr tp" and suf: "codec s = Inr ts"
    and empty: "s = [] \<longrightarrow> ts = []" and bad: "bad \<noteq> []"
  shows "x_lenientCodec codec (p @ bad @ s) replace = Some (Inr (tp @ replace @ ts))"
proof -
  have rest: "x_loop codec replace (tp @ replace) s = Some (Inr (tp @ replace @ ts))"
    using suf empty by (subst x_loop.simps) simp
  have "x_loop codec replace [] (p @ bad @ s) = x_loop codec replace (tp @ replace) s"
    using whole pre bad by (subst x_loop.simps) simp
  then show ?thesis
    using rest by (simp add: x_lenientCodec_def)
qed

subsection \<open>The placeholder\<close>

text \<open>
  Claim C2. The docstring of \<^verbatim>\<open>lenientDecode\<close> promises \<^verbatim>\<open>?\<close>, or the value of \<^verbatim>\<open>replace\<close>, for an
  offending byte. The body ignores \<^verbatim>\<open>replace\<close> and the library puts U+FFFD: for the bytes
  \<^verbatim>\<open>a\<close>, \<^verbatim>\<open>0xFF\<close>, \<^verbatim>\<open>b\<close> in ASCII the result is not the decoded prefix, \<^verbatim>\<open>?\<close>, and the decoded
  suffix. The back-end \<^verbatim>\<open>x_lenientCodec\<close> would give that (\<open>x_lenientCodec_single_error\<close>),
  but no method calls it.
\<close>

theorem lenientDecode_placeholder:
  "lenientDecode [0x61, 0xFF, 0x62] ascii [0x3F] = [0x61, 0xFFFD, 0x62] \<and>
   lenientDecode [0x61] ascii [0x3F] @ [0x3F] @ lenientDecode [0x62] ascii [0x3F]
     = [0x61, 0x3F, 0x62]"
  by (simp add: lenientDecode_def replace_decode.simps ascii_def)

lemma lenientDecode_ignores_replace:
  "lenientDecode string encoding replace = lenientDecode string encoding replace'"
  by (simp add: lenientDecode_def)

subsection \<open>The scenarios of the specification\<close>

lemma scenario_latin_1_to_utf_8: "remoteToLocal latin_1 utf_8 [0xE9] = Inr [0xC3, 0xA9]"
  by (simp add: remoteToLocal_def lenientEncode_def lenientDecode_def replace_decode.simps
      latin_1_def utf_8_def utf8_bytes_def)

lemma scenario_utf_8_to_ascii:
  "localToRemote ascii utf_8 [0x63, 0x61, 0x66, 0xC3, 0xA9] = Inr [0x63, 0x61, 0x66, 0x3F]"
  by (simp add: localToRemote_def lenientEncode_def lenientDecode_def replace_decode.simps
      ascii_def utf_8_def utf8_head_def continuation_def)

lemma invalid_byte_to_utf_8:
  "remoteToLocal ascii utf_8 [0x61, 0xFF] = Inr [0x61, 0xEF, 0xBF, 0xBD]"
  by (simp add: remoteToLocal_def lenientEncode_def lenientDecode_def replace_decode.simps
      ascii_def utf_8_def utf8_bytes_def)

subsection \<open>The write loop and the relay\<close>

lemma written_append: "written fd (a @ b) = written fd a @ written fd b"
  by (induction a rule: written.induct) simp_all






text \<open>
  As long as the liveness checks find the child alive the loop does not return, whether
  or not bytes remain to be written.
\<close>

lemma write_data_alive_throughout:
  assumes wb: "well_behaved k" and wr: "writable k"
  shows "\<not> terminated s \<Longrightarrow> checks_passed k (\<not> flag_eof s) (n_waitpid s) fuel = fuel \<Longrightarrow>
         write_data fuel k fd data s = None"
proof (induction fuel arbitrary: data s)
  case 0
  then show ?case by simp
next
  case (Suc fuel)
  let ?nh = "\<not> flag_eof s"
  let ?n = "n_waitpid s"
  have alive: "looks_alive k ?nh ?n"
    using Suc.prems(2) by (simp split: if_splits)
  then have j: "checks_passed k ?nh (Suc (Suc ?n)) fuel = fuel"
    using Suc.prems(2) by simp
  obtain s1 where i1: "isalive k s = (Inr True, s1)"
    and f1: "flag_eof s1 = flag_eof s" and w1: "n_write s1 = n_write s"
    and c1: "\<not> terminated s1" "n_waitpid s1 = Suc (Suc ?n)"
    using isalive_exact [OF wb Suc.prems(1)] alive by auto
  obtain a where a: "write_answer k (n_write s) = Inr a"
    using wr unfolding writable_def by blast
  define m where "m = min a (length data)"
  define s2 where
    "s2 = s1\<lparr>n_write := Suc (n_write s1), trace := trace s1 @ [Write fd (take m data)]\<rparr>"
  have ow: "os_write k fd data s1 = (Inr m, s2)"
    using a w1 by (simp add: os_write_def Let_def m_def s2_def)
  have s2: "\<not> terminated s2" "n_waitpid s2 = Suc (Suc ?n)" "flag_eof s2 = flag_eof s"
    using c1 f1 by (simp_all add: s2_def)
  have "write_data (Suc fuel) k fd data s = write_data fuel k fd (drop m data) s2"
    using i1 ow by (simp add: differs_from_empty_str_def)
  then show ?case
    using Suc.IH [of s2 "drop m data"] s2 j by simp
qed

lemmas session_defs =
  isalive_def os_waitpid_def reaped_def os_write_def os_read_def select_def
  fresh_session_def Let_def



lemma ascii_ab: "remoteToLocal ascii ascii [0x61, 0x62] = Inr [0x61, 0x62]"
  by (simp add: remoteToLocal_def lenientEncode_def lenientDecode_def replace_decode.simps
      ascii_def)

lemma ascii_c: "remoteToLocal ascii ascii [0x63] = Inr [0x63]"
  by (simp add: remoteToLocal_def lenientEncode_def lenientDecode_def replace_decode.simps
      ascii_def)

lemma chatty_child_interact:
  "interact (Suc (Suc (Suc 0))) chatty_child ascii ascii (fresh_session 4242 3) =
     Some (Inr (),
       (fresh_session 4242 3)\<lparr>terminated := True, status := Some (Exited 0),
          n_waitpid := 5, n_read := 2, n_write := 2, n_select := 2,
          trace := [SetRaw, Read 3 [0x61, 0x62], Write 1 [0x61],
                    Read 3 [0x63], Write 1 [0x63], Restore]\<rparr>)"
  by (simp add: session_defs interact_def interact_body_def remote_side_def
      STDOUT_FILENO_def STDIN_FILENO_def ascii_ab ascii_c chatty_child_def)






text \<open>
  Claim C4. Output of the child is written to standard output with one \<^verbatim>\<open>os.write\<close> whose
  result is dropped, where input for the child goes through the loop of \<^verbatim>\<open>write\<close>. If the
  terminal takes one byte of the two bytes \<^verbatim>\<open>ab\<close>, the relay reads the next chunk \<^verbatim>\<open>c\<close> from
  the child and writes it; \<^verbatim>\<open>b\<close> is never written.
\<close>

theorem partial_stdout_write_dropped:
  "\<exists>s'. interact (Suc (Suc (Suc 0))) chatty_child ascii ascii (fresh_session 4242 3)
          = Some (Inr (), s') \<and>
        trace s' = [SetRaw, Read 3 [0x61, 0x62], Write 1 [0x61],
                    Read 3 [0x63], Write 1 [0x63], Restore] \<and>
        written 1 (trace s') = [0x61, 0x63]"
  unfolding chatty_child_interact by simp

lemma split_child_interact:
  "interact (Suc (Suc (Suc 0))) split_child utf_8 utf_8 (fresh_session 4242 3) =
     Some (Inr (),
       (fresh_session 4242 3)\<lparr>terminated := True, status := Some (Exited 0),
          n_waitpid := 5, n_read := 2, n_write := 2, n_select := 2,
          trace := [SetRaw, Read 3 [0x63, 0xC3], Write 1 [0x63, 0xEF, 0xBF, 0xBD],
                    Read 3 [0xA9], Write 1 [0xEF, 0xBF, 0xBD], Restore]\<rparr>)"
  by (simp add: session_defs interact_def interact_body_def remote_side_def
      STDOUT_FILENO_def STDIN_FILENO_def remoteToLocal_first remoteToLocal_second
      split_child_def)

text \<open>
  Claim C1. The relay of \<^verbatim>\<open>ttyconv.py\<close> decodes what each \<^verbatim>\<open>os.read\<close> returned with
  \<^verbatim>\<open>lenientDecode\<close>, a final decoding that keeps nothing for the next call. When the two
  bytes of U+00E9 in UTF-8 arrive together, \<^verbatim>\<open>remoteToLocal\<close> hands them on as that
  character. When a read ends between them, the call for that read puts U+FFFD for the
  first byte and the next call U+FFFD for the second: the relay writes \<^verbatim>\<open>c\<close> and two
  replacement characters to the terminal. The handler of \<^verbatim>\<open>ttyconv2.py\<close> holds the first
  byte back and decodes the character (\<open>handle_output_from_system_carries\<close>).
\<close>

theorem split_character_replaced:
  "remoteToLocal utf_8 utf_8 ([0x63, 0xC3] @ [0xA9]) = Inr [0x63, 0xC3, 0xA9] \<and>
   lenientDecode ([0x63, 0xC3] @ [0xA9]) utf_8 [0x3F] = [0x63, 0xE9] \<and>
   lenientDecode [0x63, 0xC3] utf_8 [0x3F] @ lenientDecode [0xA9] utf_8 [0x3F]
     = [0x63, 0xFFFD, 0xFFFD] \<and>
   (\<exists>s'. interact (Suc (Suc (Suc 0))) split_child utf_8 utf_8 (fresh_session 4242 3)
           = Some (Inr (), s') \<and>
         trace s' = [SetRaw, Read 3 [0x63, 0xC3], Write 1 [0x63, 0xEF, 0xBF, 0xBD],
                     Read 3 [0xA9], Write 1 [0xEF, 0xBF, 0xBD], Restore] \<and>
         written 1 (trace s') = [0x63, 0xEF, 0xBF, 0xBD, 0xEF, 0xBF, 0xBD])"
  unfolding split_child_interact using remoteToLocal_whole lenientDecode_split by simp

end
